theory Spec2Isabelle
  imports Main "HOL-Library.Multiset"
begin

section \<open>Python string primitives used by the collection manager\<close>

text \<open>
  The script \<^verbatim>\<open>qdrant_collection_manager.py\<close> reads lines from the console and
  treats them with \<^verbatim>\<open>str.strip\<close>, \<^verbatim>\<open>str.lower\<close>, \<^verbatim>\<open>str.split(',')\<close> and
  \<^verbatim>\<open>int\<close>. A character of the model is a Unicode code point below 256, which is
  enough for every literal of the script (the accented \<^verbatim>\<open>i\<close> of the Spanish yes is
  code point 237). Console text with code points from 256 on is outside the model.
\<close>

definition py_isspace :: "char \<Rightarrow> bool" where
  \<comment> \<open>\<^verbatim>\<open>str.isspace\<close> on one code point below 256\<close>
  "py_isspace c =
     (let n = (of_char c :: nat)
      in (9 \<le> n \<and> n \<le> 13) \<or> (28 \<le> n \<and> n \<le> 32) \<or> n = 133 \<or> n = 160)"

definition strip :: "string \<Rightarrow> string" where
  \<comment> \<open>\<^verbatim>\<open>s.strip()\<close>\<close>
  "strip s = rev (dropWhile py_isspace (rev (dropWhile py_isspace s)))"

definition lower_char :: "char \<Rightarrow> char" where
  "lower_char c =
     (let n = (of_char c :: nat)
      in if (65 \<le> n \<and> n \<le> 90) \<or> (192 \<le> n \<and> n \<le> 222 \<and> n \<noteq> 215)
         then char_of (n + 32) else c)"

definition lower :: "string \<Rightarrow> string" where
  \<comment> \<open>\<^verbatim>\<open>s.lower()\<close>\<close>
  "lower s = map lower_char s"

fun split :: "char \<Rightarrow> string \<Rightarrow> string list" where
  \<comment> \<open>\<^verbatim>\<open>s.split(sep)\<close> for a separator of one character: never an empty list\<close>
  "split sep [] = [[]]"
| "split sep (c # cs) =
     (if c = sep then [] # split sep cs
      else (case split sep cs of [] \<Rightarrow> [[c]] | t # ts \<Rightarrow> (c # t) # ts))"

definition is_digit :: "char \<Rightarrow> bool" where
  "is_digit c = (let n = (of_char c :: nat) in 48 \<le> n \<and> n \<le> 57)"

definition digit_value :: "char \<Rightarrow> nat" where
  "digit_value c = of_char c - 48"

fun parse_digits :: "string \<Rightarrow> nat \<Rightarrow> nat option" where
  \<comment> \<open>the rest of a decimal literal after a digit: digits, each optionally preceded by
      one underscore\<close>
  "parse_digits [] acc = Some acc"
| "parse_digits (c # cs) acc =
     (if is_digit c then parse_digits cs (10 * acc + digit_value c)
      else if c = CHR ''_'' then
        (case cs of
           [] \<Rightarrow> None
         | d # ds \<Rightarrow> if is_digit d then parse_digits ds (10 * acc + digit_value d) else None)
      else None)"

definition parse_nat :: "string \<Rightarrow> nat option" where
  "parse_nat s =
     (case s of
        [] \<Rightarrow> None
      | c # cs \<Rightarrow> if is_digit c then parse_digits cs (digit_value c) else None)"

definition py_int :: "string \<Rightarrow> int option" where
  \<comment> \<open>\<^verbatim>\<open>int(s)\<close> in base 10; \<open>None\<close> is \<^verbatim>\<open>ValueError\<close>. The interpreter's optional
      cap on the number of digits is not modelled.\<close>
  "py_int s =
     (case strip s of
        [] \<Rightarrow> None
      | c # cs \<Rightarrow>
          if c = CHR ''-'' then map_option (\<lambda>n. - int n) (parse_nat cs)
          else if c = CHR ''+'' then map_option int (parse_nat cs)
          else map_option int (parse_nat (c # cs)))"

definition yes_words :: "string list" where
  \<comment> \<open>the accepted answers \<^verbatim>\<open>y\<close>, \<^verbatim>\<open>yes\<close>, \<^verbatim>\<open>si\<close>, and \<^verbatim>\<open>si\<close> with an acute accent on the \<^verbatim>\<open>i\<close>\<close>
  "yes_words = [''y'', ''yes'', [CHR ''s'', CHR 0xED], ''si'']"


section \<open>Data model\<close>

text \<open>
  A collection as the listing endpoint describes it, and the detail record of one
  collection. Both are dictionaries in the script; the model types them by the keys
  the script reads. A listing entry always carries its name.
\<close>

record collection =
  col_name :: string
  col_vectors_count :: "nat option"
  col_status :: "string option"

record info =
  info_status :: "string option"
  info_vectors_count :: nat
  info_indexed_vectors_count :: nat
  info_size :: "nat option"
  info_distance :: "string option"

text \<open>The body of \<^verbatim>\<open>PUT /collections/{name}\<close>: \<^verbatim>\<open>{"vectors": {"size", "distance"}}\<close>.\<close>

record vectors_config =
  vsize :: int
  vdistance :: string

datatype request =
    GET string
  | PUT string vectors_config
  | DELETE string

text \<open>
  What a call of \<^verbatim>\<open>requests\<close> gives back: an exception of the library, or a response
  with its status code and body. A JSON body is read through its \<^verbatim>\<open>status\<close> and
  \<^verbatim>\<open>result\<close> keys only.
\<close>

datatype net_error = ConnectionError | Timeout | OtherError

datatype result =
    Null
  | Flag bool
  | Collections "collection list"
  | Info info

datatype body = NotJson | Json string result

datatype reply = Raised net_error | Http nat body

text \<open>
  The exceptions that the prompts of the script raise: \<^verbatim>\<open>input\<close> raises
  \<^verbatim>\<open>KeyboardInterrupt\<close> on Ctrl-C and \<^verbatim>\<open>EOFError\<close> at the end of the input. Interrupts
  are delivered at prompts only. What the library calls raise is caught where it is
  raised and is part of \<^typ>\<open>reply\<close>.
\<close>

datatype exn = KeyboardInterrupt | EOFError

definition is_Exception :: "exn \<Rightarrow> bool" where
  \<comment> \<open>the subclasses of \<^verbatim>\<open>Exception\<close>: \<^verbatim>\<open>KeyboardInterrupt\<close> is none\<close>
  "is_Exception e = (e = EOFError)"

text \<open>
  What can leave \<^verbatim>\<open>run\<close> or the constructor other than a normal return:
  \<^verbatim>\<open>sys.exit(c)\<close>, or an exception that nothing caught.
\<close>

datatype abort = SystemExit nat | Uncaught exn

text \<open>
  What the script writes to the console: the text of a message (the Spanish of the source
  without its accents and decorations) with the values it interpolates, the table of
  \<^verbatim>\<open>display_collections\<close>, and the detail block of one collection. The trace also
  records every request with the reply it got.
\<close>

datatype arg = Str string | Num int | Strs "string list" | Exn exn

datatype level = Plain | Success | Error | Warning | Information

datatype event =
    Call request reply
  | Print level string "arg list"
  | Table "collection list"
  | Detail string info

text \<open>A key press at a prompt: a line, or Ctrl-C. The end of the list is the end of input.\<close>

datatype key = Line string | Interrupt

text \<open>
  The world outside the manager: what the console will deliver, what the remote service
  will answer to the successive requests, and the trace of what happened so far. The
  manager is sequential, so any behaviour of the remote service is some list of replies;
  when the list is used up the service is unreachable.
\<close>

record world =
  stdin :: "key list"
  net :: "reply list"
  out :: "event list"

definition emit :: "event \<Rightarrow> world \<Rightarrow> world" where
  "emit e w = w\<lparr>out := out w @ [e]\<rparr>"

definition print :: "level \<Rightarrow> string \<Rightarrow> arg list \<Rightarrow> world \<Rightarrow> world" where
  "print lv message args w = emit (Print lv message args) w"

definition print_success :: "string \<Rightarrow> arg list \<Rightarrow> world \<Rightarrow> world" where
  "print_success = print Success"

definition print_error :: "string \<Rightarrow> arg list \<Rightarrow> world \<Rightarrow> world" where
  "print_error = print Error"

definition print_warning :: "string \<Rightarrow> arg list \<Rightarrow> world \<Rightarrow> world" where
  "print_warning = print Warning"

definition print_info :: "string \<Rightarrow> arg list \<Rightarrow> world \<Rightarrow> world" where
  "print_info = print Information"

definition input :: "world \<Rightarrow> (exn + string) \<times> world" where
  \<comment> \<open>\<^verbatim>\<open>input(prompt)\<close>\<close>
  "input w =
     (case stdin w of
        [] \<Rightarrow> (Inl EOFError, w)
      | Interrupt # ks \<Rightarrow> (Inl KeyboardInterrupt, w\<lparr>stdin := ks\<rparr>)
      | Line l # ks \<Rightarrow> (Inr l, w\<lparr>stdin := ks\<rparr>))"

definition http :: "request \<Rightarrow> world \<Rightarrow> reply \<times> world" where
  \<comment> \<open>one call of \<^verbatim>\<open>requests.get\<close>, \<^verbatim>\<open>requests.put\<close> or \<^verbatim>\<open>requests.delete\<close>\<close>
  "http rq w =
     (case net w of
        [] \<Rightarrow> (Raised ConnectionError, w\<lparr>out := out w @ [Call rq (Raised ConnectionError)]\<rparr>)
      | r # rs \<Rightarrow> (r, w\<lparr>net := rs, out := out w @ [Call rq r]\<rparr>))"


section \<open>The manager\<close>

record manager =
  host :: string
  port :: string
  user :: "string option"
  password :: "string option"
  base_url :: string
  auth :: "(string \<times> string) option"

subsection \<open>Configuration and connection\<close>

text \<open>The environment after \<^verbatim>\<open>load_dotenv()\<close>; \<^verbatim>\<open>os.getenv(k)\<close> is \<open>env k\<close>.\<close>

type_synonym env = "string \<rightharpoonup> string"

definition falsy :: "string option \<Rightarrow> bool" where
  \<comment> \<open>\<^verbatim>\<open>not x\<close> for a value that is \<^verbatim>\<open>None\<close> or a string\<close>
  "falsy x = (x = None \<or> x = Some [])"

definition load_config ::
  "env \<Rightarrow> world \<Rightarrow> (abort + string \<times> string \<times> string option \<times> string option) \<times> world" where
  "load_config env w =
     (let h = env ''QDRANT_HOST'';
          p = (case env ''QDRANT_PORT'' of None \<Rightarrow> ''6333'' | Some v \<Rightarrow> v);
          u = env ''QDRANT_USER'';
          pw = env ''QDRANT_PASSWORD''
      in case h of
           None \<Rightarrow> (Inl (SystemExit 1), print_error ''ERROR: QDRANT_HOST no encontrado en .env'' [] w)
         | Some hv \<Rightarrow>
             if hv = [] then
               (Inl (SystemExit 1), print_error ''ERROR: QDRANT_HOST no encontrado en .env'' [] w)
             else (Inr (hv, p, u, pw),
                   if falsy u \<or> falsy pw
                   then print_warning ''ADVERTENCIA: Credenciales no configuradas completamente'' [] w
                   else w))"

definition init :: "env \<Rightarrow> world \<Rightarrow> (abort + manager) \<times> world" where
  \<comment> \<open>\<^verbatim>\<open>QdrantCollectionManager.__init__\<close>\<close>
  "init env w =
     (case load_config env w of
        (Inl e, w1) \<Rightarrow> (Inl e, w1)
      | (Inr (h, p, u, pw), w1) \<Rightarrow>
          (Inr \<lparr>host = h, port = p, user = u, password = pw,
                base_url = ''http://'' @ h @ '':'' @ p,
                auth = (case (u, pw) of
                          (Some uv, Some pv) \<Rightarrow> if uv \<noteq> [] \<and> pv \<noteq> [] then Some (uv, pv) else None
                        | _ \<Rightarrow> None)\<rparr>, w1))"

definition test_connection :: "manager \<Rightarrow> world \<Rightarrow> bool \<times> world" where
  "test_connection m w =
     (case http (GET (base_url m @ ''/'')) (print_info ''Probando conexion a'' [Str (base_url m)] w) of
        (Http c b, w1) \<Rightarrow>
          if c = 200 then (True, print_success ''Conexion exitosa a Qdrant'' [] w1)
          else (False, print_error ''Error de conexion: HTTP'' [Num (int c)] w1)
      | (Raised ConnectionError, w1) \<Rightarrow>
          (False, print_info ''Verificar que Qdrant este ejecutandose en'' [Str (host m), Str (port m)]
                    (print_error ''Error: No se puede conectar al servidor Qdrant'' [] w1))
      | (Raised Timeout, w1) \<Rightarrow> (False, print_error ''Error: Timeout de conexion'' [] w1)
      | (Raised OtherError, w1) \<Rightarrow> (False, print_error ''Error inesperado'' [] w1))"

text \<open>Whether a reply to the connectivity check counts as reachable.\<close>

definition root_ok :: "reply \<Rightarrow> bool" where
  "root_ok r = (case r of Http c b \<Rightarrow> c = 200 | Raised e \<Rightarrow> False)"

subsection \<open>Listing\<close>

text \<open>
  The list of collections in a reply to \<^verbatim>\<open>GET /collections\<close>: status 200, the
  \<^verbatim>\<open>status\<close> key equal to \<^verbatim>\<open>ok\<close>, and \<^verbatim>\<open>result.collections\<close>, which defaults to the
  empty list when the result is a dictionary without that key. A result that is no
  dictionary raises inside the \<^verbatim>\<open>try\<close> block.
\<close>

definition get_collections :: "manager \<Rightarrow> world \<Rightarrow> collection list option \<times> world" where
  "get_collections m w =
     (case http (GET (base_url m @ ''/collections'')) w of
        (Http c b, w1) \<Rightarrow>
          if c = 200 then
            (case b of
               Json st res \<Rightarrow>
                 if st = ''ok'' then
                   (case res of
                      Collections cs \<Rightarrow> (Some cs, w1)
                    | Info i \<Rightarrow> (Some [], w1)
                    | _ \<Rightarrow> (None, print_error ''Error obteniendo colecciones'' [] w1))
                 else (None, print_error ''Error en respuesta de Qdrant'' [] w1)
             | NotJson \<Rightarrow> (None, print_error ''Error obteniendo colecciones'' [] w1))
          else (None, print_error ''Error HTTP'' [Num (int c)] w1)
      | (Raised e, w1) \<Rightarrow> (None, print_error ''Error obteniendo colecciones'' [] w1))"

definition display_collections :: "collection list \<Rightarrow> world \<Rightarrow> world" where
  "display_collections cols w =
     (if cols = [] then print_warning ''No hay colecciones en Qdrant (esta limpio)'' [] w
      else print Plain ''Total'' [Num (int (length cols))] (emit (Table cols) w))"

text \<open>
  The request for the listing, and what \<^verbatim>\<open>get_collections\<close> makes of a reply to it.
\<close>

definition list_url :: "manager \<Rightarrow> request" where
  "list_url m = GET (base_url m @ ''/collections'')"

definition collections_of :: "reply \<Rightarrow> collection list option" where
  "collections_of r =
     (case r of
        Http c (Json st res) \<Rightarrow>
          if c = 200 \<and> st = ''ok'' then
            (case res of Collections cs \<Rightarrow> Some cs | Info i \<Rightarrow> Some [] | _ \<Rightarrow> None)
          else None
      | _ \<Rightarrow> None)"

subsection \<open>Creating\<close>

lemma emit_fields [simp]:
  "stdin (emit e w) = stdin w" "net (emit e w) = net w" "out (emit e w) = out w @ [e]"
  by (simp_all add: emit_def)

lemma print_fields [simp]:
  "stdin (print lv t a w) = stdin w" "net (print lv t a w) = net w"
  "out (print lv t a w) = out w @ [Print lv t a]"
  by (simp_all add: print_def)

lemma print_error_fields [simp]:
  "stdin (print_error t a w) = stdin w" "net (print_error t a w) = net w"
  "out (print_error t a w) = out w @ [Print Error t a]"
  by (simp_all add: print_error_def)

lemma print_warning_fields [simp]:
  "stdin (print_warning t a w) = stdin w" "net (print_warning t a w) = net w"
  "out (print_warning t a w) = out w @ [Print Warning t a]"
  by (simp_all add: print_warning_def)

lemma print_info_fields [simp]:
  "stdin (print_info t a w) = stdin w" "net (print_info t a w) = net w"
  "out (print_info t a w) = out w @ [Print Information t a]"
  by (simp_all add: print_info_def)

lemma print_success_fields [simp]:
  "stdin (print_success t a w) = stdin w" "net (print_success t a w) = net w"
  "out (print_success t a w) = out w @ [Print Success t a]"
  by (simp_all add: print_success_def)

lemma stdin_http [simp]: "stdin (snd (http rq w)) = stdin w"
  by (simp add: http_def split: list.splits)

lemma stdin_get_collections [simp]: "stdin (snd (get_collections m w)) = stdin w"
proof -
  obtain r w1 where h: "http (GET (base_url m @ ''/collections'')) w = (r, w1)"
    by (cases "http (GET (base_url m @ ''/collections'')) w")
  with stdin_http [of "GET (base_url m @ ''/collections'')" w] have "stdin w1 = stdin w" by simp
  with h show ?thesis
    by (simp add: get_collections_def split: reply.splits body.splits result.splits)
qed

lemma input_shorter: "(Inr l, w1) = input w \<Longrightarrow> length (stdin w1) < length (stdin w)"
  by (auto simp: input_def split: list.splits key.splits)

lemma input_not_longer: "length (stdin (snd (input w))) \<le> length (stdin w)"
  by (auto simp: input_def split: list.splits key.splits)

text \<open>The \<^verbatim>\<open>while True\<close> loop of \<^verbatim>\<open>get_collection_config\<close> that asks for the name.\<close>

function ask_name :: "manager \<Rightarrow> world \<Rightarrow> (exn + string) \<times> world" where
  "ask_name m w =
     (case input w of
        (Inl e, w1) \<Rightarrow> (Inl e, w1)
      | (Inr l, w1) \<Rightarrow>
          if strip l = [] then ask_name m (print_warning ''El nombre no puede estar vacio'' [] w1)
          else
            (case get_collections m w1 of
               (None, w2) \<Rightarrow> (Inr (strip l), w2)
             | (Some cols, w2) \<Rightarrow>
                 if cols \<noteq> [] \<and> strip l \<in> set (map col_name cols)
                 then ask_name m (print_error ''La coleccion ya existe'' [Str (strip l)] w2)
                 else (Inr (strip l), w2)))"
  by pat_completeness auto
termination
proof (relation "measure (\<lambda>(m, w). length (stdin w))")
  show "wf (measure (\<lambda>(m, w). length (stdin w)))" by simp
next
  fix m w x w1 l
  assume "(x, w1) = input w" "x = Inr l"
  then have "length (stdin w1) < length (stdin w)" by (auto dest: input_shorter)
  then show "((m, print_warning ''El nombre no puede estar vacio'' [] w1), m, w)
      \<in> measure (\<lambda>(m, w). length (stdin w))" by simp
next
  fix m w x w1 l y w2 cols
  assume "(x, w1) = input w" "x = Inr l" "(y, w2) = get_collections m w1"
  then have "length (stdin w1) < length (stdin w)" "stdin w2 = stdin w1"
    using stdin_get_collections [of m w1] by (auto dest: input_shorter simp: snd_def split: prod.splits)
  then show "((m, print_error ''La coleccion ya existe'' [Str (strip l)] w2), m, w)
      \<in> measure (\<lambda>(m, w). length (stdin w))" by simp
qed

declare ask_name.simps [simp del]

text \<open>The loop that asks for the vector size, with its \<^verbatim>\<open>except ValueError\<close>.\<close>

function ask_vector_size :: "world \<Rightarrow> (exn + int) \<times> world" where
  "ask_vector_size w =
     (case input w of
        (Inl e, w1) \<Rightarrow> (Inl e, w1)
      | (Inr l, w1) \<Rightarrow>
          (case (if strip l = [] then Some 1536 else py_int (strip l)) of
             None \<Rightarrow> ask_vector_size (print_error ''Por favor ingresa un numero valido'' [] w1)
           | Some vector_size \<Rightarrow>
               if vector_size \<le> 0 then
                 ask_vector_size (print_error ''El tamano debe ser mayor que 0'' [] w1)
               else if vector_size > 65536 then
                 (case input (print_warning ''Tamano muy grande, estas seguro?'' [] w1) of
                    (Inl e, w2) \<Rightarrow> (Inl e, w2)
                  | (Inr confirm, w2) \<Rightarrow>
                      if lower (strip confirm) \<in> set yes_words then (Inr vector_size, w2)
                      else ask_vector_size w2)
               else (Inr vector_size, w1)))"
  by pat_completeness auto
termination
  by (relation "measure (\<lambda>w. length (stdin w))") (auto dest!: input_shorter)

declare ask_vector_size.simps [simp del]

definition distance_options :: "string \<rightharpoonup> string" where
  "distance_options = map_of [(''1'', ''Cosine''), (''2'', ''Euclidean''), (''3'', ''Dot'')]"

text \<open>The loop that asks for the distance function.\<close>

function ask_distance :: "world \<Rightarrow> (exn + string) \<times> world" where
  "ask_distance w =
     (case input w of
        (Inl e, w1) \<Rightarrow> (Inl e, w1)
      | (Inr l, w1) \<Rightarrow>
          (case distance_options (if strip l = [] then ''1'' else strip l) of
             Some distance \<Rightarrow> (Inr distance, w1)
           | None \<Rightarrow> ask_distance (print_error ''Opcion invalida. Selecciona 1, 2 o 3'' [] w1)))"
  by pat_completeness auto
termination
  by (relation "measure (\<lambda>w. length (stdin w))") (auto dest!: input_shorter)

declare ask_distance.simps [simp del]

text \<open>The body of the \<^verbatim>\<open>try\<close> block of \<^verbatim>\<open>get_collection_config\<close>.\<close>

definition config_prompts ::
  "manager \<Rightarrow> world \<Rightarrow> (exn + (string \<times> vectors_config) option) \<times> world" where
  "config_prompts m w =
     (case ask_name m w of
        (Inl e, w1) \<Rightarrow> (Inl e, w1)
      | (Inr nm, w1) \<Rightarrow>
          (case ask_vector_size (print Plain ''Tamano del vector (dimensiones)'' [] w1) of
             (Inl e, w2) \<Rightarrow> (Inl e, w2)
           | (Inr vector_size, w2) \<Rightarrow>
               (case ask_distance (print Plain ''Funcion de distancia'' [] w2) of
                  (Inl e, w3) \<Rightarrow> (Inl e, w3)
                | (Inr distance, w3) \<Rightarrow>
                    (case input (print Plain ''Resumen de configuracion''
                                   [Str nm, Num vector_size, Str distance] w3) of
                       (Inl e, w4) \<Rightarrow> (Inl e, w4)
                     | (Inr confirm, w4) \<Rightarrow>
                         if lower (strip confirm) \<in> set yes_words
                         then (Inr (Some (nm, \<lparr>vsize = vector_size, vdistance = distance\<rparr>)), w4)
                         else (Inr None, print_info ''Creacion de coleccion cancelada'' [] w4)))))"

definition get_collection_config ::
  "manager \<Rightarrow> world \<Rightarrow> (exn + (string \<times> vectors_config) option) \<times> world" where
  "get_collection_config m w =
     (case config_prompts m (print Plain ''Configuracion de nueva coleccion'' [] w) of
        (Inl KeyboardInterrupt, w1) \<Rightarrow>
          (Inr None, print Plain ''Operacion cancelada por el usuario'' [] w1)
      | r \<Rightarrow> r)"

definition create_collection :: "manager \<Rightarrow> string \<Rightarrow> vectors_config \<Rightarrow> world \<Rightarrow> bool \<times> world" where
  "create_collection m collection_name config w =
     (case http (PUT (base_url m @ ''/collections/'' @ collection_name) config)
             (print_info ''Creando coleccion'' [Str collection_name] w) of
        (Http c b, w1) \<Rightarrow>
          if c = 200 \<or> c = 201 then
            (case b of
               Json st res \<Rightarrow>
                 if res = Flag True
                 then (True, print_success ''Coleccion creada exitosamente'' [Str collection_name] w1)
                 else (False, print_error ''Error creando coleccion'' [] w1)
             | NotJson \<Rightarrow>
                 (False, print_error ''Error creando coleccion (excepcion)'' [Str collection_name] w1))
          else (False, print_error ''Error HTTP'' [Num (int c)] w1)
      | (Raised e, w1) \<Rightarrow>
          (False, print_error ''Error creando coleccion (excepcion)'' [Str collection_name] w1))"

text \<open>
  The detail of one collection. The result of this endpoint is taken to be a dictionary
  of the shape of \<^typ>\<open>info\<close> or null, as the annotation \<^verbatim>\<open>Optional[Dict]\<close> says.
\<close>

definition get_collection_info :: "manager \<Rightarrow> string \<Rightarrow> world \<Rightarrow> info option \<times> world" where
  "get_collection_info m collection_name w =
     (case http (GET (base_url m @ ''/collections/'' @ collection_name)) w of
        (Http c b, w1) \<Rightarrow>
          if c = 200 then
            (case b of
               Json st res \<Rightarrow>
                 if st = ''ok'' then (case res of Info i \<Rightarrow> (Some i, w1) | _ \<Rightarrow> (None, w1))
                 else (None, w1)
             | NotJson \<Rightarrow> (None, w1))
          else (None, w1)
      | (Raised e, w1) \<Rightarrow> (None, w1))"

subsection \<open>Selecting\<close>

text \<open>
  The \<^verbatim>\<open>for num_str in numbers\<close> loop of \<^verbatim>\<open>get_user_selection\<close>: \<open>Inl\<close> is the error
  message of the early \<^verbatim>\<open>return None\<close>.
\<close>

fun select_numbers ::
  "collection list \<Rightarrow> string list \<Rightarrow> string list \<Rightarrow> (string \<times> arg list) + string list" where
  "select_numbers cols [] selected_collections = Inr selected_collections"
| "select_numbers cols (num_str # rest) selected_collections =
     (case py_int num_str of
        None \<Rightarrow> Inl (''no es un numero valido'', [Str num_str])
      | Some num \<Rightarrow>
          if 1 \<le> num \<and> num \<le> int (length cols) then
            (let collection_name = col_name (cols ! nat (num - 1))
             in select_numbers cols rest
                  (if collection_name \<in> set selected_collections then selected_collections
                   else selected_collections @ [collection_name]))
          else Inl (''Numero fuera de rango'', [Num num, Num (int (length cols))]))"

text \<open>The \<^verbatim>\<open>while True\<close> loop of \<^verbatim>\<open>get_user_selection\<close>, with its \<^verbatim>\<open>try\<close> inside the loop.\<close>

function selection_loop ::
  "collection list \<Rightarrow> string \<Rightarrow> world \<Rightarrow> (exn + string list option) \<times> world" where
  "selection_loop cols action w =
     (case input w of
        (Inl KeyboardInterrupt, w1) \<Rightarrow>
          (Inr None, print Plain ''Operacion cancelada por el usuario'' [] w1)
      | (Inl e, w1) \<Rightarrow> (Inl e, w1)
      | (Inr l, w1) \<Rightarrow>
          if strip l = [] then
            selection_loop cols action (print_warning ''Por favor ingresa una seleccion'' [] w1)
          else if lower (strip l) \<in> set [''q'', ''quit'', ''exit''] then (Inr None, w1)
          else if action = ''borrar'' \<and> lower (strip l) \<in> set [''all'', ''*'', ''todas'']
          then (Inr (Some (map col_name cols)), w1)
          else
            (case select_numbers cols (map strip (split CHR '','' (strip l))) [] of
               Inl (message, args) \<Rightarrow> (Inr None, print_error message args w1)
             | Inr selected_collections \<Rightarrow>
                 if selected_collections \<noteq> [] then (Inr (Some selected_collections), w1)
                 else selection_loop cols action
                        (print_warning ''No se seleccionaron colecciones validas'' [] w1)))"
  by pat_completeness auto
termination
  by (relation "measure (\<lambda>(cols, action, w). length (stdin w))") (auto dest!: input_shorter)

declare selection_loop.simps [simp del]

definition get_user_selection ::
  "collection list \<Rightarrow> string \<Rightarrow> world \<Rightarrow> (exn + string list option) \<times> world" where
  "get_user_selection cols action w =
     selection_loop cols action (print Plain ''Opciones de seleccion para'' [Str action] w)"

text \<open>The \<^verbatim>\<open>while True\<close> loop of \<^verbatim>\<open>confirm_deletion\<close>; it has no \<^verbatim>\<open>try\<close>.\<close>

function confirm_loop :: "world \<Rightarrow> (exn + bool) \<times> world" where
  "confirm_loop w =
     (case input w of
        (Inl e, w1) \<Rightarrow> (Inl e, w1)
      | (Inr l, w1) \<Rightarrow>
          if lower (strip l) \<in> set yes_words then (Inr True, w1)
          else if lower (strip l) \<in> set [''n'', ''no''] then (Inr False, w1)
          else confirm_loop (print_warning ''Por favor responde y (si) o n (no)'' [] w1))"
  by pat_completeness auto
termination
  by (relation "measure (\<lambda>w. length (stdin w))") (auto dest!: input_shorter)

declare confirm_loop.simps [simp del]

definition confirm_deletion :: "string list \<Rightarrow> world \<Rightarrow> (exn + bool) \<times> world" where
  "confirm_deletion collections_to_delete w =
     confirm_loop (print Plain ''CONFIRMACION DE BORRADO'' [Strs collections_to_delete] w)"

subsection \<open>Deleting\<close>

definition delete_ok :: "reply \<Rightarrow> bool" where
  \<comment> \<open>status 200 and \<^verbatim>\<open>data.get('result') is True\<close>\<close>
  "delete_ok r = (case r of Http c (Json st res) \<Rightarrow> c = 200 \<and> res = Flag True | _ \<Rightarrow> False)"

definition delete_collection :: "manager \<Rightarrow> string \<Rightarrow> world \<Rightarrow> bool \<times> world" where
  "delete_collection m nm w =
     (case http (DELETE (base_url m @ ''/collections/'' @ nm)) w of
        (Http c b, w1) \<Rightarrow>
          if c = 200 then
            (case b of
               Json st res \<Rightarrow>
                 if res = Flag True then (True, w1)
                 else (False, print_error ''Error borrando'' [Str nm] w1)
             | NotJson \<Rightarrow> (False, print_error ''Error borrando (excepcion)'' [Str nm] w1))
          else (False, print_error ''Error HTTP borrando'' [Num (int c), Str nm] w1)
      | (Raised e, w1) \<Rightarrow> (False, print_error ''Error borrando (excepcion)'' [Str nm] w1))"

fun delete_loop ::
  "manager \<Rightarrow> nat \<Rightarrow> nat \<Rightarrow> string list \<Rightarrow> string list \<Rightarrow> string list \<Rightarrow> world
     \<Rightarrow> (string list \<times> string list) \<times> world" where
  \<comment> \<open>the \<^verbatim>\<open>for i, collection_name in enumerate(collections_to_delete, 1)\<close> loop\<close>
  "delete_loop m cnt i [] successful failed w = ((successful, failed), w)"
| "delete_loop m cnt i (nm # rest) successful failed w =
     (case delete_collection m nm (print Plain ''Borrando'' [Num (int i), Num (int cnt), Str nm] w) of
        (True, w1) \<Rightarrow>
          delete_loop m cnt (Suc i) rest (successful @ [nm]) failed (print Plain ''Exito'' [] w1)
      | (False, w1) \<Rightarrow>
          delete_loop m cnt (Suc i) rest successful (failed @ [nm]) (print Plain ''Error'' [] w1))"

definition delete_collections ::
  "manager \<Rightarrow> string list \<Rightarrow> world \<Rightarrow> (string list \<times> string list) \<times> world" where
  "delete_collections m collections_to_delete w =
     delete_loop m (length collections_to_delete) 1 collections_to_delete [] []
       (print Plain ''Iniciando proceso de borrado'' [] w)"

definition display_results :: "string list \<Rightarrow> string list \<Rightarrow> string \<Rightarrow> world \<Rightarrow> world" where
  "display_results successful failed operation w =
     print Plain ''Total procesadas'' [Num (int (length successful + length failed))]
       (print Plain ''RESULTADOS'' [Str operation, Strs successful, Strs failed] w)"

subsection \<open>Details\<close>

fun details_loop :: "manager \<Rightarrow> string list \<Rightarrow> world \<Rightarrow> world" where
  \<comment> \<open>the \<^verbatim>\<open>for collection_name in selected\<close> loop of \<^verbatim>\<open>show_collection_details\<close>\<close>
  "details_loop m [] w = w"
| "details_loop m (collection_name # rest) w =
     (case get_collection_info m collection_name
             (print Plain ''Detalles de'' [Str collection_name] w) of
        (Some i, w1) \<Rightarrow> details_loop m rest (emit (Detail collection_name i) w1)
      | (None, w1) \<Rightarrow>
          details_loop m rest
            (print_error ''No se pudo obtener informacion de'' [Str collection_name] w1))"

definition show_collection_details ::
  "manager \<Rightarrow> collection list \<Rightarrow> world \<Rightarrow> (exn + unit) \<times> world" where
  "show_collection_details m cols w =
     (case get_user_selection cols ''ver detalles'' w of
        (Inl e, w1) \<Rightarrow> (Inl e, w1)
      | (Inr None, w1) \<Rightarrow> (Inr (), w1)
      | (Inr (Some selected), w1) \<Rightarrow>
          if selected = [] then (Inr (), w1) else (Inr (), details_loop m selected w1))"

subsection \<open>The menu\<close>

text \<open>The \<^verbatim>\<open>while True\<close> loop of \<^verbatim>\<open>show_main_menu\<close>, with its \<^verbatim>\<open>try\<close> inside the loop.\<close>

function menu_loop :: "world \<Rightarrow> (exn + string) \<times> world" where
  "menu_loop w =
     (case input w of
        (Inl KeyboardInterrupt, w1) \<Rightarrow> (Inr ''5'', print Plain ''Saliendo...'' [] w1)
      | (Inl e, w1) \<Rightarrow> (Inl e, w1)
      | (Inr l, w1) \<Rightarrow>
          if strip l \<in> set [''1'', ''2'', ''3'', ''4'', ''5''] then (Inr (strip l), w1)
          else menu_loop (print_warning ''Por favor selecciona una opcion valida (1-5)'' [] w1))"
  by pat_completeness auto
termination
  by (relation "measure (\<lambda>w. length (stdin w))") (auto dest!: input_shorter)

declare menu_loop.simps [simp del]

definition show_main_menu :: "world \<Rightarrow> (exn + string) \<times> world" where
  "show_main_menu w = menu_loop (print Plain ''MENU PRINCIPAL'' [] w)"

text \<open>
  The four branches of the \<^verbatim>\<open>if choice == '1' ... elif choice == '4'\<close> chain of
  \<^verbatim>\<open>run\<close>, and the chain. Their arguments are the manager and the world: nothing else
  is carried from one pass of the menu to the next.
\<close>

definition list_action :: "manager \<Rightarrow> world \<Rightarrow> (exn + unit) \<times> world" where
  "list_action m w =
     (case get_collections m (print_info ''Obteniendo lista de colecciones...'' [] w) of
        (None, w1) \<Rightarrow> (Inr (), print_error ''No se pudieron obtener las colecciones'' [] w1)
      | (Some cols, w1) \<Rightarrow> (Inr (), display_collections cols w1))"

definition create_action :: "manager \<Rightarrow> world \<Rightarrow> (exn + unit) \<times> world" where
  "create_action m w =
     (case get_collection_config m w of
        (Inl e, w1) \<Rightarrow> (Inl e, w1)
      | (Inr None, w1) \<Rightarrow> (Inr (), w1)
      | (Inr (Some (nm, config)), w1) \<Rightarrow>
          (case create_collection m nm config w1 of
             (False, w2) \<Rightarrow> (Inr (), w2)
           | (True, w2) \<Rightarrow>
               (case get_collection_info m nm
                       (print_info ''Verificando coleccion creada...'' [] w2) of
                  (None, w3) \<Rightarrow> (Inr (), w3)
                | (Some i, w3) \<Rightarrow>
                    (Inr (), print Plain ''Coleccion creada exitosamente''
                               [Str nm, Str (case info_status i of None \<Rightarrow> ''unknown'' | Some st \<Rightarrow> st)]
                               w3))))"

definition details_action :: "manager \<Rightarrow> world \<Rightarrow> (exn + unit) \<times> world" where
  "details_action m w =
     (case get_collections m w of
        (None, w1) \<Rightarrow> (Inr (), print_error ''No se pudieron obtener las colecciones'' [] w1)
      | (Some cols, w1) \<Rightarrow>
          if cols = [] then
            (Inr (), print_warning ''No hay colecciones para mostrar detalles'' [] w1)
          else show_collection_details m cols (display_collections cols w1))"

definition delete_action :: "manager \<Rightarrow> world \<Rightarrow> (exn + unit) \<times> world" where
  "delete_action m w =
     (case get_collections m w of
        (None, w1) \<Rightarrow> (Inr (), print_error ''No se pudieron obtener las colecciones'' [] w1)
      | (Some cols, w1) \<Rightarrow>
          if cols = [] then (Inr (), print_warning ''No hay colecciones para eliminar'' [] w1)
          else
            (case get_user_selection cols ''borrar'' (display_collections cols w1) of
               (Inl e, w2) \<Rightarrow> (Inl e, w2)
             | (Inr None, w2) \<Rightarrow> (Inr (), w2)
             | (Inr (Some selected), w2) \<Rightarrow>
                 if selected = [] then (Inr (), w2)
                 else
                   (case confirm_deletion selected w2 of
                      (Inl e, w3) \<Rightarrow> (Inl e, w3)
                    | (Inr True, w3) \<Rightarrow>
                        (case delete_collections m selected w3 of
                           ((successful, failed), w4) \<Rightarrow>
                             (Inr (), display_results successful failed ''borrado'' w4))
                    | (Inr False, w3) \<Rightarrow>
                        (Inr (), print_info ''Borrado cancelado por el usuario'' [] w3))))"

definition menu_action :: "manager \<Rightarrow> string \<Rightarrow> world \<Rightarrow> (exn + unit) \<times> world" where
  "menu_action m choice w =
     (if choice = ''1'' then list_action m w
      else if choice = ''2'' then create_action m w
      else if choice = ''3'' then details_action m w
      else if choice = ''4'' then delete_action m w
      else (Inr (), w))"

subsection \<open>Console input is only consumed\<close>

lemma input_le: "input w = (x, w1) \<Longrightarrow> length (stdin w1) \<le> length (stdin w)"
  by (auto simp: input_def split: list.splits key.splits)

lemma input_lt: "input w = (Inr l, w1) \<Longrightarrow> length (stdin w1) < length (stdin w)"
  by (auto simp: input_def split: list.splits key.splits)

lemma stdin_get_collections_eq: "get_collections m w = (y, w2) \<Longrightarrow> stdin w2 = stdin w"
  using stdin_get_collections [of m w] by simp

lemma stdin_ask_name: "length (stdin (snd (ask_name m w))) \<le> length (stdin w)"
proof (induction "length (stdin w)" arbitrary: w rule: less_induct)
  case less
  obtain x w1 where i: "input w = (x, w1)" by (cases "input w")
  obtain y w2 where g: "get_collections m w1 = (y, w2)" by (cases "get_collections m w1")
  note le1 = input_le [OF i]
  note s2 = stdin_get_collections_eq [OF g]
  show ?case
  proof (cases x)
    case (Inl e)
    with i le1 show ?thesis by (simp add: ask_name.simps [of m w])
  next
    case (Inr l)
    with i have lt: "length (stdin w1) < length (stdin w)" by (simp add: input_lt)
    have rec: "length (stdin (snd (ask_name m w'))) \<le> length (stdin w)"
      if "stdin w' = stdin w1" for w'
      using less.hyps [of w'] lt that by simp
    show ?thesis
      using le1 s2
      by (simp add: ask_name.simps [of m w] i g Inr rec split: option.splits)
  qed
qed

lemma stdin_ask_vector_size: "length (stdin (snd (ask_vector_size w))) \<le> length (stdin w)"
proof (induction "length (stdin w)" arbitrary: w rule: less_induct)
  case less
  obtain x w1 where i: "input w = (x, w1)" by (cases "input w")
  obtain y w2 where j: "input (print_warning ''Tamano muy grande, estas seguro?'' [] w1) = (y, w2)"
    by (cases "input (print_warning ''Tamano muy grande, estas seguro?'' [] w1)")
  note le1 = input_le [OF i]
  have le2: "length (stdin w2) \<le> length (stdin w1)" using input_le [OF j] by simp
  show ?case
  proof (cases x)
    case (Inl e)
    with i le1 show ?thesis by (simp add: ask_vector_size.simps [of w])
  next
    case (Inr l)
    with i have lt: "length (stdin w1) < length (stdin w)" by (simp add: input_lt)
    have rec: "length (stdin (snd (ask_vector_size w'))) \<le> length (stdin w)"
      if "length (stdin w') \<le> length (stdin w1)" for w'
      using less.hyps [of w'] lt that by simp
    show ?thesis
      using le1 le2
      by (simp add: ask_vector_size.simps [of w] i j Inr rec split: option.splits sum.splits)
  qed
qed

lemma stdin_ask_distance: "length (stdin (snd (ask_distance w))) \<le> length (stdin w)"
proof (induction "length (stdin w)" arbitrary: w rule: less_induct)
  case less
  obtain x w1 where i: "input w = (x, w1)" by (cases "input w")
  note le1 = input_le [OF i]
  show ?case
  proof (cases x)
    case (Inl e)
    with i le1 show ?thesis by (simp add: ask_distance.simps [of w])
  next
    case (Inr l)
    with i have lt: "length (stdin w1) < length (stdin w)" by (simp add: input_lt)
    have rec: "length (stdin (snd (ask_distance w'))) \<le> length (stdin w)"
      if "length (stdin w') \<le> length (stdin w1)" for w'
      using less.hyps [of w'] lt that by simp
    show ?thesis
      using le1
      by (simp add: ask_distance.simps [of w] i Inr rec split: option.splits sum.splits)
  qed
qed


lemma stdin_http_eq: "http rq w = (r, w1) \<Longrightarrow> stdin w1 = stdin w"
  using stdin_http [of rq w] by simp

lemma stdin_create_collection [simp]: "stdin (snd (create_collection m nm cfg w)) = stdin w"
proof -
  let ?w0 = "print_info ''Creando coleccion'' [Str nm] w"
  obtain r w1 where h: "http (PUT (base_url m @ ''/collections/'' @ nm) cfg) ?w0 = (r, w1)"
    by (cases "http (PUT (base_url m @ ''/collections/'' @ nm) cfg) ?w0")
  from stdin_http_eq [OF h] have "stdin w1 = stdin w" by simp
  with h show ?thesis
    by (simp add: create_collection_def split: reply.splits body.splits)
qed

lemma stdin_get_collection_info [simp]: "stdin (snd (get_collection_info m nm w)) = stdin w"
proof -
  obtain r w1 where h: "http (GET (base_url m @ ''/collections/'' @ nm)) w = (r, w1)"
    by (cases "http (GET (base_url m @ ''/collections/'' @ nm)) w")
  from stdin_http_eq [OF h] have "stdin w1 = stdin w" by simp
  with h show ?thesis
    by (simp add: get_collection_info_def split: reply.splits body.splits result.splits)
qed

lemma stdin_delete_collection [simp]: "stdin (snd (delete_collection m nm w)) = stdin w"
proof -
  obtain r w1 where h: "http (DELETE (base_url m @ ''/collections/'' @ nm)) w = (r, w1)"
    by (cases "http (DELETE (base_url m @ ''/collections/'' @ nm)) w")
  from stdin_http_eq [OF h] have "stdin w1 = stdin w" by simp
  with h show ?thesis
    by (simp add: delete_collection_def split: reply.splits body.splits)
qed

lemma stdin_delete_loop [simp]:
  "stdin (snd (delete_loop m cnt i names successful failed w)) = stdin w"
proof (induction names arbitrary: i successful failed w)
  case Nil
  show ?case by simp
next
  case (Cons nm rest)
  let ?w0 = "print Plain ''Borrando'' [Num (int i), Num (int cnt), Str nm] w"
  obtain b w1 where d: "delete_collection m nm ?w0 = (b, w1)"
    by (cases "delete_collection m nm ?w0")
  with stdin_delete_collection [of m nm ?w0] have "stdin w1 = stdin w" by simp
  with d Cons.IH show ?case by (cases b) simp_all
qed

lemma stdin_delete_collections [simp]: "stdin (snd (delete_collections m names w)) = stdin w"
  by (simp add: delete_collections_def)

lemma stdin_details_loop [simp]: "stdin (details_loop m names w) = stdin w"
proof (induction names arbitrary: w)
  case Nil
  show ?case by simp
next
  case (Cons nm rest)
  let ?w0 = "print Plain ''Detalles de'' [Str nm] w"
  obtain r w1 where d: "get_collection_info m nm ?w0 = (r, w1)"
    by (cases "get_collection_info m nm ?w0")
  with stdin_get_collection_info [of m nm ?w0] have "stdin w1 = stdin w" by simp
  with d Cons.IH show ?case by (cases r) simp_all
qed

lemma stdin_display_collections [simp]: "stdin (display_collections cols w) = stdin w"
  by (simp add: display_collections_def)

lemma stdin_display_results [simp]: "stdin (display_results s f operation w) = stdin w"
  by (simp add: display_results_def)

lemma stdin_selection_loop:
  "length (stdin (snd (selection_loop cols action w))) \<le> length (stdin w)"
proof (induction "length (stdin w)" arbitrary: w rule: less_induct)
  case less
  obtain x w1 where i: "input w = (x, w1)" by (cases "input w")
  note le1 = input_le [OF i]
  show ?case
  proof (cases x)
    case (Inl e)
    with i le1 show ?thesis by (cases e) (simp_all add: selection_loop.simps [of cols action w])
  next
    case (Inr l)
    with i have lt: "length (stdin w1) < length (stdin w)" by (simp add: input_lt)
    have rec: "length (stdin (snd (selection_loop cols action w'))) \<le> length (stdin w)"
      if "length (stdin w') \<le> length (stdin w1)" for w'
      using less.hyps [of w'] lt that by simp
    show ?thesis
      using le1
      by (simp add: selection_loop.simps [of cols action w] i Inr rec split: sum.splits prod.splits)
  qed
qed

lemma stdin_get_user_selection:
  "length (stdin (snd (get_user_selection cols action w))) \<le> length (stdin w)"
  using stdin_selection_loop [of cols action "print Plain ''Opciones de seleccion para'' [Str action] w"]
  by (simp add: get_user_selection_def)

lemma stdin_confirm_loop: "length (stdin (snd (confirm_loop w))) \<le> length (stdin w)"
proof (induction "length (stdin w)" arbitrary: w rule: less_induct)
  case less
  obtain x w1 where i: "input w = (x, w1)" by (cases "input w")
  note le1 = input_le [OF i]
  show ?case
  proof (cases x)
    case (Inl e)
    with i le1 show ?thesis by (simp add: confirm_loop.simps [of w])
  next
    case (Inr l)
    with i have lt: "length (stdin w1) < length (stdin w)" by (simp add: input_lt)
    have rec: "length (stdin (snd (confirm_loop w'))) \<le> length (stdin w)"
      if "length (stdin w') \<le> length (stdin w1)" for w'
      using less.hyps [of w'] lt that by simp
    show ?thesis
      using le1 by (simp add: confirm_loop.simps [of w] i Inr rec)
  qed
qed

lemma stdin_confirm_deletion:
  "length (stdin (snd (confirm_deletion names w))) \<le> length (stdin w)"
  using stdin_confirm_loop [of "print Plain ''CONFIRMACION DE BORRADO'' [Strs names] w"]
  by (simp add: confirm_deletion_def)

lemma stdin_menu_loop: "length (stdin (snd (menu_loop w))) \<le> length (stdin w)"
proof (induction "length (stdin w)" arbitrary: w rule: less_induct)
  case less
  obtain x w1 where i: "input w = (x, w1)" by (cases "input w")
  note le1 = input_le [OF i]
  show ?case
  proof (cases x)
    case (Inl e)
    with i le1 show ?thesis by (cases e) (simp_all add: menu_loop.simps [of w])
  next
    case (Inr l)
    with i have lt: "length (stdin w1) < length (stdin w)" by (simp add: input_lt)
    have rec: "length (stdin (snd (menu_loop w'))) \<le> length (stdin w)"
      if "length (stdin w') \<le> length (stdin w1)" for w'
      using less.hyps [of w'] lt that by simp
    show ?thesis
      using le1 by (simp add: menu_loop.simps [of w] i Inr rec)
  qed
qed

lemma stdin_show_main_menu: "length (stdin (snd (show_main_menu w))) \<le> length (stdin w)"
  using stdin_menu_loop [of "print Plain ''MENU PRINCIPAL'' [] w"]
  by (simp add: show_main_menu_def)

lemma stdin_config_prompts: "length (stdin (snd (config_prompts m w))) \<le> length (stdin w)"
proof -
  obtain a w1 where n: "ask_name m w = (a, w1)" by (cases "ask_name m w")
  let ?w1 = "print Plain ''Tamano del vector (dimensiones)'' [] w1"
  obtain b w2 where v: "ask_vector_size ?w1 = (b, w2)" by (cases "ask_vector_size ?w1")
  let ?w2 = "print Plain ''Funcion de distancia'' [] w2"
  obtain c w3 where d: "ask_distance ?w2 = (c, w3)" by (cases "ask_distance ?w2")
  have l1: "length (stdin w1) \<le> length (stdin w)" using stdin_ask_name [of m w] n by simp
  have l2: "length (stdin w2) \<le> length (stdin w1)" using stdin_ask_vector_size [of ?w1] v by simp
  have l3: "length (stdin w3) \<le> length (stdin w2)" using stdin_ask_distance [of ?w2] d by simp
  show ?thesis
    using l1 l2 l3
    by (auto simp: config_prompts_def n v d split: sum.splits prod.splits dest!: input_le)
qed

lemma stdin_get_collection_config:
  "length (stdin (snd (get_collection_config m w))) \<le> length (stdin w)"
proof -
  let ?w0 = "print Plain ''Configuracion de nueva coleccion'' [] w"
  obtain r w1 where c: "config_prompts m ?w0 = (r, w1)" by (cases "config_prompts m ?w0")
  with stdin_config_prompts [of m ?w0] have "length (stdin w1) \<le> length (stdin w)" by simp
  with c show ?thesis
    by (simp add: get_collection_config_def split: sum.splits exn.splits)
qed

lemma stdin_show_collection_details:
  "length (stdin (snd (show_collection_details m cols w))) \<le> length (stdin w)"
proof -
  obtain r w1 where c: "get_user_selection cols ''ver detalles'' w = (r, w1)"
    by (cases "get_user_selection cols ''ver detalles'' w")
  with stdin_get_user_selection [of cols "''ver detalles''" w]
  have "length (stdin w1) \<le> length (stdin w)" by simp
  with c show ?thesis
    by (simp add: show_collection_details_def split: sum.splits option.splits)
qed


lemma stdin_list_action: "length (stdin (snd (list_action m w))) \<le> length (stdin w)"
proof -
  let ?w0 = "print_info ''Obteniendo lista de colecciones...'' [] w"
  obtain r w1 where g: "get_collections m ?w0 = (r, w1)" by (cases "get_collections m ?w0")
  from stdin_get_collections_eq [OF g] have "stdin w1 = stdin w" by simp
  with g show ?thesis by (simp add: list_action_def split: option.splits)
qed

lemma stdin_create_action: "length (stdin (snd (create_action m w))) \<le> length (stdin w)"
proof -
  obtain r w1 where c: "get_collection_config m w = (r, w1)"
    by (cases "get_collection_config m w")
  with stdin_get_collection_config [of m w] have l1: "length (stdin w1) \<le> length (stdin w)"
    by simp
  show ?thesis
  proof (cases r)
    case (Inl e)
    with c l1 show ?thesis by (simp add: create_action_def)
  next
    case (Inr cfg)
    show ?thesis
    proof (cases cfg)
      case None
      with c l1 Inr show ?thesis by (simp add: create_action_def)
    next
      case (Some p)
      obtain nm config where p: "p = (nm, config)" by (cases p)
      obtain b w2 where cr: "create_collection m nm config w1 = (b, w2)"
        by (cases "create_collection m nm config w1")
      with stdin_create_collection [of m nm config w1] have s2: "stdin w2 = stdin w1" by simp
      let ?w2 = "print_info ''Verificando coleccion creada...'' [] w2"
      obtain i w3 where gi: "get_collection_info m nm ?w2 = (i, w3)"
        by (cases "get_collection_info m nm ?w2")
      with stdin_get_collection_info [of m nm ?w2] have s3: "stdin w3 = stdin w2" by simp
      show ?thesis
        using l1 s2 s3
        by (simp add: create_action_def c Inr Some p cr gi split: bool.splits option.splits)
    qed
  qed
qed

lemma stdin_details_action: "length (stdin (snd (details_action m w))) \<le> length (stdin w)"
proof -
  obtain r w1 where g: "get_collections m w = (r, w1)" by (cases "get_collections m w")
  from stdin_get_collections_eq [OF g] have s1: "stdin w1 = stdin w" .
  have "length (stdin (snd (show_collection_details m cols (display_collections cols w1))))
      \<le> length (stdin w)" for cols
    using stdin_show_collection_details [of m cols "display_collections cols w1"] s1 by simp
  with g s1 show ?thesis by (simp add: details_action_def split: option.splits)
qed

lemma stdin_delete_action: "length (stdin (snd (delete_action m w))) \<le> length (stdin w)"
proof -
  obtain r w1 where g: "get_collections m w = (r, w1)" by (cases "get_collections m w")
  from stdin_get_collections_eq [OF g] have s1: "stdin w1 = stdin w" .
  show ?thesis
  proof (cases r)
    case None
    with g s1 show ?thesis by (simp add: delete_action_def)
  next
    case (Some cols)
    obtain x w2 where u: "get_user_selection cols ''borrar'' (display_collections cols w1) = (x, w2)"
      by (cases "get_user_selection cols ''borrar'' (display_collections cols w1)")
    with stdin_get_user_selection [of cols "''borrar''" "display_collections cols w1"] s1
    have l2: "length (stdin w2) \<le> length (stdin w)" by simp
    have l3: "length (stdin (snd (confirm_deletion sel w2))) \<le> length (stdin w)" for sel
      using stdin_confirm_deletion [of sel w2] l2 by simp
    have l4: "length (stdin w3) \<le> length (stdin w)"
      if "confirm_deletion sel w2 = (y, w3)" for sel y w3
      using l3 [of sel] that by simp
    have l5: "length (stdin w4) \<le> length (stdin w)"
      if "confirm_deletion sel w2 = (y, w3)" "delete_collections m sel w3 = (z, w4)" for sel y w3 z w4
      using l4 [OF that(1)] stdin_delete_collections [of m sel w3] that(2) by simp
    show ?thesis
      using s1 l2
      by (auto simp: delete_action_def g Some u
          split: sum.splits option.splits bool.splits prod.splits dest: l4 l5)
  qed
qed

lemma stdin_menu_action: "length (stdin (snd (menu_action m choice w))) \<le> length (stdin w)"
  by (simp add: menu_action_def stdin_list_action stdin_create_action stdin_details_action
      stdin_delete_action)

function run_loop :: "manager \<Rightarrow> world \<Rightarrow> (exn + unit) \<times> world" where
  "run_loop m w =
     (case show_main_menu w of
        (Inl e, w1) \<Rightarrow> (Inl e, w1)
      | (Inr choice, w1) \<Rightarrow>
          if choice = ''5'' then (Inr (), w1)
          else
            (case menu_action m choice w1 of
               (Inl e, w2) \<Rightarrow> (Inl e, w2)
             | (Inr u, w2) \<Rightarrow>
                 (case input w2 of
                    (Inl e, w3) \<Rightarrow> (Inl e, w3)
                  | (Inr l, w3) \<Rightarrow> run_loop m w3)))"
  by pat_completeness auto
termination
proof (relation "measure (\<lambda>(m, w). length (stdin w))")
  show "wf (measure (\<lambda>(m, w). length (stdin w)))" by simp
next
  fix m w x w1 choice y w2 u z w3 l
  assume "(x, w1) = show_main_menu w" "(y, w2) = menu_action m choice w1"
    "(z, w3) = input w2" "z = Inr l"
  then have "length (stdin w1) \<le> length (stdin w)" "length (stdin w2) \<le> length (stdin w1)"
    "length (stdin w3) < length (stdin w2)"
    using stdin_show_main_menu [of w] stdin_menu_action [of m choice w1] input_shorter [of l w3 w2]
    by (auto simp: snd_def split: prod.splits)
  then show "((m, w3), m, w) \<in> measure (\<lambda>(m, w). length (stdin w))" by simp
qed


declare run_loop.simps [simp del]

text \<open>The header of \<^verbatim>\<open>run\<close> with the configuration in use.\<close>

definition print_banner :: "manager \<Rightarrow> world \<Rightarrow> world" where
  "print_banner m w =
     print Plain ''Configuracion''
       [Str (host m), Str (port m),
        Str (case user m of None \<Rightarrow> ''No configurado''
             | Some u \<Rightarrow> if u = [] then ''No configurado'' else u),
        Str (if auth m = None then ''No configurada'' else ''Configurada'')]
       (print Plain ''QDRANT COLLECTION MANAGER - ENHANCED'' [] w)"

text \<open>
  The two handlers of the \<^verbatim>\<open>try\<close> block around the menu loop, and the farewell that
  follows the block.
\<close>

definition farewell :: "world \<Rightarrow> world" where
  "farewell w = print Plain ''Gracias por usar Qdrant Collection Manager Enhanced!'' [] w"

definition run :: "manager \<Rightarrow> world \<Rightarrow> (abort + unit) \<times> world" where
  "run m w =
     (case test_connection m (print_banner m w) of
        (False, w1) \<Rightarrow>
          (Inl (SystemExit 1), print_error ''No se puede continuar sin conexion a Qdrant'' [] w1)
      | (True, w1) \<Rightarrow>
          (case run_loop m w1 of
             (Inr u, w2) \<Rightarrow> (Inr (), farewell w2)
           | (Inl e, w2) \<Rightarrow>
               if e = KeyboardInterrupt then
                 (Inr (), farewell (print Plain ''Programa interrumpido por el usuario'' [] w2))
               else if is_Exception e then
                 (Inr (), farewell (print Plain ''Traceback'' [Exn e]
                                      (print_error ''Error inesperado'' [Exn e] w2)))
               else (Inl (Uncaught e), w2)))"

text \<open>
  What becomes of an exception that reaches \<^verbatim>\<open>main\<close>: its \<^verbatim>\<open>except Exception\<close> exits
  with status 1, \<^verbatim>\<open>sys.exit(c)\<close> ends the process with status \<open>c\<close>, and an uncaught
  \<^verbatim>\<open>KeyboardInterrupt\<close> ends it with the status of the interrupt signal.
\<close>

definition main_except :: "abort \<Rightarrow> world \<Rightarrow> nat \<times> world" where
  "main_except a w =
     (case a of
        SystemExit c \<Rightarrow> (c, w)
      | Uncaught e \<Rightarrow>
          if is_Exception e then (1, print Plain ''Error fatal'' [Exn e] w) else (130, w))"

text \<open>The process: its exit status and the final world.\<close>

definition main :: "env \<Rightarrow> world \<Rightarrow> nat \<times> world" where
  "main env w =
     (case init env w of
        (Inl e, w1) \<Rightarrow> main_except e w1
      | (Inr m, w1) \<Rightarrow>
          (case run m w1 of
             (Inl e, w2) \<Rightarrow> main_except e w2
           | (Inr u, w2) \<Rightarrow> (0, w2)))"


subsection \<open>Example values\<close>

text \<open>A manager, two replies and a listing for the examples.\<close>

definition example_manager :: manager where
  "example_manager =
     \<lparr>host = ''qdrant'', port = ''6333'', user = None, password = None,
      base_url = ''http://qdrant:6333'', auth = None\<rparr>"

definition accepted :: reply where
  "accepted = Http 200 (Json ''ok'' (Flag True))"

definition rejected :: reply where
  "rejected = Http 500 NotJson"

definition example_collection :: "string \<Rightarrow> collection" where
  "example_collection nm = \<lparr>col_name = nm, col_vectors_count = None, col_status = Some ''green''\<rparr>"

definition example_listing :: "collection list" where
  "example_listing = map example_collection [''a'', ''b'', ''c'']"

definition listing_reply :: reply where
  "listing_reply = Http 200 (Json ''ok'' (Collections example_listing))"

text \<open>
  An environment with the host only, the reply to the connectivity check, and what a
  successful start with this environment writes.
\<close>

definition example_env :: env where
  "example_env = [''QDRANT_HOST'' \<mapsto> ''qdrant'']"

definition root_reply :: reply where
  "root_reply = Http 200 NotJson"

definition startup_trace :: "event list" where
  "startup_trace =
     [Print Warning ''ADVERTENCIA: Credenciales no configuradas completamente'' [],
      Print Plain ''QDRANT COLLECTION MANAGER - ENHANCED'' [],
      Print Plain ''Configuracion''
        [Str ''qdrant'', Str ''6333'', Str ''No configurado'', Str ''No configurada''],
      Print Information ''Probando conexion a'' [Str ''http://qdrant:6333''],
      Call (GET ''http://qdrant:6333/'') root_reply,
      Print Success ''Conexion exitosa a Qdrant'' []]"

subsection \<open>Specification vocabulary\<close>

text \<open>
  A list without its repeated entries, each entry kept where it first occurs:
  \<^const>\<open>remdups\<close> keeps the last occurrence, so it is applied to the reversed list.
\<close>

definition first_occurrences :: "'a list \<Rightarrow> 'a list" where
  "first_occurrences xs = rev (remdups (rev xs))"


text \<open>
  A trace shows fresh listings when every table in it stands right after a request for
  the listing whose reply carries the collections of the table.
\<close>

definition is_table :: "event \<Rightarrow> bool" where
  "is_table e = (case e of Table cols \<Rightarrow> True | _ \<Rightarrow> False)"

fun fresh_after :: "manager \<Rightarrow> event option \<Rightarrow> event list \<Rightarrow> bool" where
  "fresh_after m prev [] = True"
| "fresh_after m prev (e # es) =
     ((case e of
         Table cols \<Rightarrow>
           (case prev of
              Some (Call rq r) \<Rightarrow> rq = list_url m \<and> collections_of r = Some cols
            | _ \<Rightarrow> False)
       | _ \<Rightarrow> True)
      \<and> fresh_after m (Some e) es)"

definition fresh_listings :: "manager \<Rightarrow> event list \<Rightarrow> bool" where
  "fresh_listings m evs = fresh_after m None evs"


section \<open>Batch delete\<close>

definition next_reply :: "reply list \<Rightarrow> reply" where
  "next_reply rs = (case rs of [] \<Rightarrow> Raised ConnectionError | r # _ \<Rightarrow> r)"

fun served :: "nat \<Rightarrow> reply list \<Rightarrow> reply list" where
  "served 0 rs = []"
| "served (Suc n) [] = Raised ConnectionError # served n []"
| "served (Suc n) (r # rs) = r # served n rs"

fun calls :: "event list \<Rightarrow> (request \<times> reply) list" where
  "calls [] = []"
| "calls (Call rq rp # es) = (rq, rp) # calls es"
| "calls (e # es) = calls es"

lemma calls_append [simp]: "calls (xs @ ys) = calls xs @ calls ys"
  by (induction xs rule: calls.induct) auto

lemma http_eq:
  "http rq w = (next_reply (net w), w\<lparr>net := tl (net w), out := out w @ [Call rq (next_reply (net w))]\<rparr>)"
  by (cases "net w") (auto simp: http_def next_reply_def)

lemma served_Suc: "served (Suc n) rs = next_reply rs # served n (tl rs)"
  by (cases rs) (auto simp: next_reply_def)

lemma length_served [simp]: "length (served n rs) = n"
  by (induction n rs rule: served.induct) auto

definition delete_url :: "manager \<Rightarrow> string \<Rightarrow> request" where
  "delete_url m nm = DELETE (base_url m @ ''/collections/'' @ nm)"

lemma delete_collection_props:
  "fst (delete_collection m nm w) = delete_ok (next_reply (net w))"
  "net (snd (delete_collection m nm w)) = tl (net w)"
  "stdin (snd (delete_collection m nm w)) = stdin w"
  "calls (out (snd (delete_collection m nm w))) = calls (out w) @ [(delete_url m nm, next_reply (net w))]"
  by (auto simp: delete_collection_def http_eq delete_ok_def delete_url_def
      split: reply.splits body.splits)

lemma delete_loop_props:
  "fst (delete_loop m cnt i names successful failed w) =
     (successful @ map fst (filter (\<lambda>(n, r). delete_ok r) (zip names (served (length names) (net w)))),
      failed @ map fst (filter (\<lambda>(n, r). \<not> delete_ok r) (zip names (served (length names) (net w)))))
   \<and> calls (out (snd (delete_loop m cnt i names successful failed w))) =
       calls (out w) @ zip (map (delete_url m) names) (served (length names) (net w))
   \<and> stdin (snd (delete_loop m cnt i names successful failed w)) = stdin w
   \<and> net (snd (delete_loop m cnt i names successful failed w)) = drop (length names) (net w)"
proof (induction names arbitrary: i successful failed w)
  case Nil
  then show ?case by simp
next
  case (Cons nm rest)
  define w0 where "w0 = print Plain ''Borrando'' [Num (int i), Num (int cnt), Str nm] w"
  obtain b w1 where dc: "delete_collection m nm w0 = (b, w1)"
    by (cases "delete_collection m nm w0")
  have b: "b = delete_ok (next_reply (net w))"
    and n1: "net w1 = tl (net w)" and s1: "stdin w1 = stdin w"
    and c1: "calls (out w1) = calls (out w) @ [(delete_url m nm, next_reply (net w))]"
    using delete_collection_props [of m nm w0] unfolding dc by (simp_all add: w0_def)
  show ?case
  proof (cases b)
    case True
    have step: "delete_loop m cnt i (nm # rest) successful failed w =
        delete_loop m cnt (Suc i) rest (successful @ [nm]) failed (print Plain ''Exito'' [] w1)"
      using dc True by (simp add: w0_def)
    show ?thesis
      unfolding step
      using Cons.IH [of "Suc i" "successful @ [nm]" failed "print Plain ''Exito'' [] w1"] True b
      by (simp add: served_Suc n1 s1 c1 drop_Suc)
  next
    case False
    have step: "delete_loop m cnt i (nm # rest) successful failed w =
        delete_loop m cnt (Suc i) rest successful (failed @ [nm]) (print Plain ''Error'' [] w1)"
      using dc False by (simp add: w0_def)
    show ?thesis
      unfolding step
      using Cons.IH [of "Suc i" successful "failed @ [nm]" "print Plain ''Error'' [] w1"] False b
      by (simp add: served_Suc n1 s1 c1 drop_Suc)
  qed
qed


lemma filter_zip_prefix:
  "length ys = length xs \<Longrightarrow> k \<le> length xs \<Longrightarrow> \<forall>i<length xs. P (ys ! i) = (i < k) \<Longrightarrow>
     map fst (filter (\<lambda>(n, r). P r) (zip xs ys)) = take k xs
     \<and> map fst (filter (\<lambda>(n, r). \<not> P r) (zip xs ys)) = drop k xs"
proof (induction xs arbitrary: ys k)
  case Nil
  then show ?case by simp
next
  case (Cons x xs)
  then obtain y ys' where ys: "ys = y # ys'" by (cases ys) auto
  show ?case
  proof (cases k)
    case 0
    with Cons.prems ys have "\<forall>i<length xs. P (ys' ! i) = (i < 0)" by auto
    with Cons.IH [of ys' 0] Cons.prems ys 0 show ?thesis by auto
  next
    case (Suc k')
    with Cons.prems ys have "\<forall>i<length xs. P (ys' ! i) = (i < k')" by auto
    with Cons.IH [of ys' k'] Cons.prems ys Suc show ?thesis by auto
  qed
qed

lemma mset_partition_zip:
  "length ys = length xs \<Longrightarrow>
     mset (map fst (filter (\<lambda>(n, r). P r) (zip xs ys)))
       + mset (map fst (filter (\<lambda>(n, r). \<not> P r) (zip xs ys))) = mset xs"
proof (induction xs arbitrary: ys)
  case Nil
  then show ?case by simp
next
  case (Cons x xs)
  then obtain y ys' where "ys = y # ys'" by (cases ys) auto
  with Cons show ?case by auto
qed

lemma length_partition_zip:
  "length ys = length xs \<Longrightarrow>
     length (map fst (filter (\<lambda>(n, r). P r) (zip xs ys)))
       + length (map fst (filter (\<lambda>(n, r). \<not> P r) (zip xs ys))) = length xs"
proof (induction xs arbitrary: ys)
  case Nil
  then show ?case by simp
next
  case (Cons x xs)
  then obtain y ys' where "ys = y # ys'" by (cases ys) auto
  with Cons show ?case by auto
qed

text \<open>
  Claim C1. \<^verbatim>\<open>delete_collections\<close> sends one delete request for every name of the
  batch, in order, whatever the earlier requests returned. With \<open>rs\<close> the replies these
  requests get, \<open>successful\<close> is the names whose reply was a success and \<open>failed\<close> the
  others, both in batch order; so every entry of the batch is in exactly one of the two
  lists, the two lengths add up to the length of the batch, and when the first \<open>k\<close>
  requests succeed and the others fail the lists are the first \<open>k\<close> names and the rest.
\<close>

theorem delete_collections_partition:
  assumes run: "delete_collections m names w = ((successful, failed), w')"
    and rs: "rs = served (length names) (net w)"
  shows "successful = map fst (filter (\<lambda>(n, r). delete_ok r) (zip names rs))
    \<and> failed = map fst (filter (\<lambda>(n, r). \<not> delete_ok r) (zip names rs))
    \<and> length successful + length failed = length names
    \<and> mset successful + mset failed = mset names
    \<and> calls (out w') = calls (out w) @ zip (map (delete_url m) names) rs
    \<and> (\<forall>k\<le>length names. (\<forall>i<length names. delete_ok (rs ! i) = (i < k)) \<longrightarrow>
          successful = take k names \<and> failed = drop k names)"
proof -
  let ?w0 = "print Plain ''Iniciando proceso de borrado'' [] w"
  have len: "length rs = length names" by (simp add: rs)
  from delete_loop_props [of m "length names" 1 names "[]" "[]" ?w0] run
  have s: "successful = map fst (filter (\<lambda>(n, r). delete_ok r) (zip names rs))"
    and f: "failed = map fst (filter (\<lambda>(n, r). \<not> delete_ok r) (zip names rs))"
    and c: "calls (out w') = calls (out w) @ zip (map (delete_url m) names) rs"
    by (simp_all add: delete_collections_def rs)
  have l: "length successful + length failed = length names"
    unfolding s f using len by (rule length_partition_zip)
  have ms: "mset successful + mset failed = mset names"
    unfolding s f using len by (rule mset_partition_zip)
  have k: "\<forall>k\<le>length names. (\<forall>i<length names. delete_ok (rs ! i) = (i < k)) \<longrightarrow>
          successful = take k names \<and> failed = drop k names"
    unfolding s f using filter_zip_prefix [OF len, of _ delete_ok] by blast
  from s f l ms c k show ?thesis by blast
qed


theorem delete_collections_partition_witness:
  "\<exists>successful failed w'.
      delete_collections example_manager [''a'', ''b'', ''c'']
        \<lparr>stdin = [], net = [accepted, accepted, rejected], out = []\<rparr> = ((successful, failed), w')
      \<and> successful = [''a'', ''b''] \<and> failed = [''c'']
      \<and> length successful + length failed = 3"
proof -
  let ?w = "\<lparr>stdin = [], net = [accepted, accepted, rejected], out = []\<rparr>"
  let ?names = "[''a'', ''b'', ''c'']"
  obtain successful failed w' where
    run: "delete_collections example_manager ?names ?w = ((successful, failed), w')"
    by (metis prod.exhaust)
  have rs: "served (length ?names) (net ?w) = [accepted, accepted, rejected]"
    by (simp add: eval_nat_numeral)
  have ok: "\<forall>i<length ?names. delete_ok ([accepted, accepted, rejected] ! i) = (i < 2)"
    by (auto simp: less_Suc_eq accepted_def rejected_def delete_ok_def eval_nat_numeral)
  from delete_collections_partition [OF run rs [symmetric]] ok
  have "successful = take 2 ?names \<and> failed = drop 2 ?names
      \<and> length successful + length failed = length ?names"
    by (metis (no_types, lifting) le_add2 length_Cons list.size(3) numeral_2_eq_2 plus_1_eq_Suc Suc_le_mono le0)
  with run show ?thesis by (simp add: eval_nat_numeral)
qed



section \<open>Selection parser\<close>

lemma strip_Nil [simp]: "strip [] = []"
  by (simp add: strip_def)

lemma strip_prefix: "dropWhile py_isspace s = strip s @ rev (takeWhile py_isspace (rev (dropWhile py_isspace s)))"
proof -
  let ?t = "dropWhile py_isspace s"
  have "rev (takeWhile py_isspace (rev ?t) @ dropWhile py_isspace (rev ?t)) = ?t"
    by simp
  then show ?thesis by (simp add: strip_def del: takeWhile_dropWhile_id)
qed

lemma strip_head_not_space:
  assumes "strip s = c # cs"
  shows "\<not> py_isspace c"
proof -
  from strip_prefix [of s] assms
  have "dropWhile py_isspace s = c # (cs @ rev (takeWhile py_isspace (rev (dropWhile py_isspace s))))"
    by simp
  then have "hd (dropWhile py_isspace s) = c" "dropWhile py_isspace s \<noteq> []"
    by (metis list.sel(1), metis list.distinct(1))
  then show ?thesis using hd_dropWhile [of py_isspace s] by auto
qed

lemma strip_Cons_not_space:
  assumes "\<not> py_isspace c"
  shows "\<exists>cs'. strip (c # cs) = c # cs'"
proof -
  have "\<exists>zs. dropWhile py_isspace (rev cs @ [c]) = zs @ [c]"
    using assms by (auto simp: dropWhile_append)
  then obtain zs where "dropWhile py_isspace (rev cs @ [c]) = zs @ [c]" ..
  then show ?thesis using assms by (simp add: strip_def)
qed

lemma py_int_Some_head:
  assumes "py_int t = Some n"
  shows "\<exists>c cs. strip t = c # cs \<and> (c = CHR ''-'' \<or> c = CHR ''+'' \<or> is_digit c)"
  using assms
  by (auto simp: py_int_def parse_nat_def split: list.splits if_splits)

lemma split_first: "\<exists>ts. split sep s = takeWhile (\<lambda>c. c \<noteq> sep) s # ts"
  by (induction s) (auto split: list.splits)

lemma lower_char_sign_digit:
  assumes "c = CHR ''-'' \<or> c = CHR ''+'' \<or> is_digit c"
  shows "lower_char c = c \<and> c \<notin> {CHR ''q'', CHR ''e'', CHR ''a'', CHR ''*'', CHR ''t''}"
  using assms by (auto simp: lower_char_def is_digit_def Let_def)

lemma numeric_selection_not_keyword:
  assumes tok: "\<forall>t\<in>set (map strip (split CHR '','' (strip l))). py_int t \<noteq> None"
  shows "strip l \<noteq> []"
    and "lower (strip l) \<notin> set [''q'', ''quit'', ''exit'']"
    and "lower (strip l) \<notin> set [''all'', ''*'', ''todas'']"
proof -
  obtain ts where sp: "split CHR '','' (strip l) = takeWhile (\<lambda>c. c \<noteq> CHR '','') (strip l) # ts"
    using split_first by blast
  let ?t0 = "takeWhile (\<lambda>c. c \<noteq> CHR '','') (strip l)"
  from tok sp obtain n where n: "py_int (strip ?t0) = Some n" by auto
  from py_int_Some_head [OF n] obtain c cs where
    c: "strip (strip ?t0) = c # cs" "c = CHR ''-'' \<or> c = CHR ''+'' \<or> is_digit c" by blast
  have "strip ?t0 \<noteq> []"
  proof
    assume "strip ?t0 = []"
    with c(1) show False by simp
  qed
  then have t0: "?t0 \<noteq> []" by (metis strip_Nil)
  then obtain c0 cs0 where s: "strip l = c0 # cs0" by (cases "strip l") auto
  with t0 have t0': "?t0 = c0 # takeWhile (\<lambda>c. c \<noteq> CHR '','') cs0" by (auto split: if_splits)
  from s have ns: "\<not> py_isspace c0" by (rule strip_head_not_space)
  from strip_Cons_not_space [OF ns] t0' obtain x where x: "strip ?t0 = c0 # x" by metis
  from strip_Cons_not_space [OF ns] x obtain x' where "strip (strip ?t0) = c0 # x'" by metis
  with c have "c0 = c" by simp
  with c(2) lower_char_sign_digit [of c0]
  have lc: "lower_char c0 = c0" "c0 \<notin> {CHR ''q'', CHR ''e'', CHR ''a'', CHR ''*'', CHR ''t''}"
    by auto
  show "strip l \<noteq> []" using s by simp
  show "lower (strip l) \<notin> set [''q'', ''quit'', ''exit'']"
    using s lc by (auto simp: lower_def)
  show "lower (strip l) \<notin> set [''all'', ''*'', ''todas'']"
    using s lc by (auto simp: lower_def)
qed


lemma remdups_drop_earlier: "x \<in> set zs \<Longrightarrow> remdups (ys @ x # zs) = remdups (ys @ zs)"
  by (induction ys) auto

lemma first_occurrences_seen:
  "x \<in> set acc \<Longrightarrow> first_occurrences (acc @ x # xs) = first_occurrences (acc @ xs)"
  by (simp add: first_occurrences_def remdups_drop_earlier)

lemma first_occurrences_distinct: "distinct acc \<Longrightarrow> first_occurrences acc = acc"
  by (simp add: first_occurrences_def distinct_remdups_id)

lemma select_numbers_valid:
  assumes "map py_int ts = map Some ns"
    and "\<forall>n\<in>set ns. 1 \<le> n \<and> n \<le> int (length cols)"
    and "distinct acc"
  shows "select_numbers cols ts acc =
     Inr (first_occurrences (acc @ map (\<lambda>n. col_name (cols ! nat (n - 1))) ns))"
  using assms
proof (induction ts arbitrary: ns acc)
  case Nil
  then show ?case by (simp add: first_occurrences_distinct)
next
  case (Cons t ts)
  from Cons.prems(1) obtain n ns' where ns: "ns = n # ns'" "py_int t = Some n"
    "map py_int ts = map Some ns'" by (cases ns) auto
  with Cons.prems(2) have n: "1 \<le> n" "n \<le> int (length cols)"
    and rest: "\<forall>n\<in>set ns'. 1 \<le> n \<and> n \<le> int (length cols)" by auto
  let ?nm = "col_name (cols ! nat (n - 1))"
  show ?case
  proof (cases "?nm \<in> set acc")
    case True
    with Cons.IH [OF ns(3) rest Cons.prems(3)] ns n show ?thesis
      by (simp add: first_occurrences_seen)
  next
    case False
    with Cons.prems(3) have "distinct (acc @ [?nm])" by simp
    from Cons.IH [OF ns(3) rest this] False ns n show ?thesis by simp
  qed
qed

lemma select_numbers_invalid:
  assumes "\<exists>t\<in>set ts. (case py_int t of None \<Rightarrow> True
                         | Some n \<Rightarrow> \<not> (1 \<le> n \<and> n \<le> int (length cols)))"
  shows "\<exists>e. select_numbers cols ts acc = Inl e"
  using assms
proof (induction ts arbitrary: acc)
  case Nil
  then show ?case by simp
next
  case (Cons t ts)
  then show ?case by (auto split: option.splits simp: Let_def)
qed

lemma input_print:
  "input w = (x, w1) \<Longrightarrow> input (print lv t a w) = (x, print lv t a w1)"
  by (auto simp: input_def print_def emit_def split: list.splits key.splits)

lemma selection_loop_valid_indices:
  assumes inp: "input w = (Inr l, w1)"
    and tok: "map py_int (map strip (split CHR '','' (strip l))) = map Some ns"
    and rng: "\<forall>n\<in>set ns. 1 \<le> n \<and> n \<le> int (length cols)"
  shows "selection_loop cols action w =
     (Inr (Some (first_occurrences (map (\<lambda>n. col_name (cols ! nat (n - 1))) ns))), w1)"
proof -
  let ?ts = "map strip (split CHR '','' (strip l))"
  have num: "\<forall>t\<in>set ?ts. py_int t \<noteq> None"
  proof
    fix t assume "t \<in> set ?ts"
    then have "py_int t \<in> set (map py_int ?ts)" by auto
    with tok show "py_int t \<noteq> None" by auto
  qed
  note kw = numeric_selection_not_keyword [OF num]
  have sel: "select_numbers cols ?ts [] =
      Inr (first_occurrences (map (\<lambda>n. col_name (cols ! nat (n - 1))) ns))"
    using select_numbers_valid [OF tok rng, of "[]"] by simp
  have "?ts \<noteq> []" using split_first [of "CHR '',''" "strip l"] by auto
  with tok have "ns \<noteq> []" by auto
  then have ne: "first_occurrences (map (\<lambda>n. col_name (cols ! nat (n - 1))) ns) \<noteq> []"
    by (simp add: first_occurrences_def)
  show ?thesis
    using kw ne by (simp add: selection_loop.simps [of cols action w] inp sel)
qed

lemma selection_loop_invalid_token:
  assumes inp: "input w = (Inr l, w1)"
    and ne: "strip l \<noteq> []"
    and nall: "\<not> (action = ''borrar'' \<and> lower (strip l) \<in> set [''all'', ''*'', ''todas''])"
    and bad: "\<exists>t\<in>set (map strip (split CHR '','' (strip l))).
                (case py_int t of None \<Rightarrow> True
                 | Some n \<Rightarrow> \<not> (1 \<le> n \<and> n \<le> int (length cols)))"
  shows "fst (selection_loop cols action w) = Inr None
     \<and> stdin (snd (selection_loop cols action w)) = stdin w1"
proof -
  from select_numbers_invalid [OF bad] obtain e where
    "select_numbers cols (map strip (split CHR '','' (strip l))) [] = Inl e" by blast
  with ne nall show ?thesis
    by (cases e) (auto simp: selection_loop.simps [of cols action w] inp)
qed

text \<open>
  Claim C2. When every comma-separated token of the stripped input line is read by
  \<^verbatim>\<open>int\<close> as an index between 1 and the length of the listing, \<^verbatim>\<open>get_user_selection\<close>
  returns the names at these indices (index 1 is the first entry), without repeated
  names and in the order in which the names first occur in the input. It prints its
  list of options and nothing else, and it asks nothing more. This holds for both
  actions.
\<close>

theorem get_user_selection_valid_indices:
  assumes inp: "input w = (Inr l, w1)"
    and tok: "map py_int (map strip (split CHR '','' (strip l))) = map Some ns"
    and rng: "\<forall>n\<in>set ns. 1 \<le> n \<and> n \<le> int (length cols)"
  shows "get_user_selection cols action w =
     (Inr (Some (first_occurrences (map (\<lambda>n. col_name (cols ! nat (n - 1))) ns))),
      print Plain ''Opciones de seleccion para'' [Str action] w1)"
  unfolding get_user_selection_def
  using input_print [OF inp] tok rng by (rule selection_loop_valid_indices)

text \<open>
  Claim C3, amended. The claim as stated fails for the delete action: there the inputs
  \<^verbatim>\<open>all\<close>, \<^verbatim>\<open>*\<close> and \<^verbatim>\<open>todas\<close> are a single non-numeric token, and they select every
  collection, as the example after the theorem shows. A blank line is asked again
  instead of being rejected. Amended: for every input line that is not blank and is not
  one of these three words under the delete action, and that has at least one token
  that \<^verbatim>\<open>int\<close> does not read or reads as a number outside 1 to the length of the
  listing, \<^verbatim>\<open>get_user_selection\<close> returns \<^verbatim>\<open>None\<close> and reads no further line, however
  many of the other tokens are valid.
\<close>

theorem get_user_selection_invalid_token:
  assumes inp: "input w = (Inr l, w1)"
    and ne: "strip l \<noteq> []"
    and nall: "\<not> (action = ''borrar'' \<and> lower (strip l) \<in> set [''all'', ''*'', ''todas''])"
    and bad: "\<exists>t\<in>set (map strip (split CHR '','' (strip l))).
                (case py_int t of None \<Rightarrow> True
                 | Some n \<Rightarrow> \<not> (1 \<le> n \<and> n \<le> int (length cols)))"
  shows "fst (get_user_selection cols action w) = Inr None
     \<and> stdin (snd (get_user_selection cols action w)) = stdin w1"
  unfolding get_user_selection_def
  using selection_loop_invalid_token [OF input_print [OF inp] ne nall bad] by simp

theorem get_user_selection_valid_indices_witness:
  "get_user_selection example_listing ''ver detalles''
     \<lparr>stdin = [Line ''2, 1,2 ''], net = [], out = []\<rparr>
   = (Inr (Some [''b'', ''a'']),
      \<lparr>stdin = [], net = [],
       out = [Print Plain ''Opciones de seleccion para'' [Str ''ver detalles'']]\<rparr>)"
proof -
  have inp: "input \<lparr>stdin = [Line ''2, 1,2 ''], net = [], out = []\<rparr>
      = (Inr ''2, 1,2 '', \<lparr>stdin = [], net = [], out = []\<rparr>)"
    by (simp add: input_def)
  have tok: "map py_int (map strip (split CHR '','' (strip ''2, 1,2 ''))) = map Some [2, 1, 2]"
    by code_simp
  have rng: "\<forall>n\<in>set [2, 1, 2 :: int]. 1 \<le> n \<and> n \<le> int (length example_listing)"
    by (simp add: example_listing_def)
  have res: "first_occurrences (map (\<lambda>n. col_name (example_listing ! nat (n - 1))) [2, 1, 2])
      = [''b'', ''a'']"
    by (simp add: first_occurrences_def example_listing_def example_collection_def)
  from get_user_selection_valid_indices [OF inp tok rng, of "''ver detalles''"] res
  show ?thesis by (simp add: print_def emit_def)
qed

text \<open>
  The word \<^verbatim>\<open>all\<close> is one token that is not a number, and under the delete action it
  selects the whole listing.
\<close>

theorem get_user_selection_all_counterexample:
  "split CHR '','' (strip ''all'') = [''all''] \<and> py_int ''all'' = None
   \<and> get_user_selection example_listing ''borrar'' \<lparr>stdin = [Line ''all''], net = [], out = []\<rparr>
     = (Inr (Some [''a'', ''b'', ''c'']),
        \<lparr>stdin = [], net = [],
         out = [Print Plain ''Opciones de seleccion para'' [Str ''borrar'']]\<rparr>)"
proof -
  have a: "strip ''all'' = ''all''" by code_simp
  have b: "lower ''all'' = ''all''" by code_simp
  have c: "py_int ''all'' = None" by code_simp
  have d: "split CHR '','' ''all'' = [''all'']" by simp
  have inp: "input \<lparr>stdin = [Line ''all''], net = [],
                    out = [Print Plain ''Opciones de seleccion para'' [Str ''borrar'']]\<rparr>
      = (Inr ''all'', \<lparr>stdin = [], net = [],
                       out = [Print Plain ''Opciones de seleccion para'' [Str ''borrar'']]\<rparr>)"
    by (simp add: input_def)
  have e: "get_user_selection example_listing ''borrar'' \<lparr>stdin = [Line ''all''], net = [], out = []\<rparr>
      = selection_loop example_listing ''borrar''
          \<lparr>stdin = [Line ''all''], net = [],
           out = [Print Plain ''Opciones de seleccion para'' [Str ''borrar'']]\<rparr>"
    by (simp add: get_user_selection_def print_def emit_def)
  show ?thesis
    unfolding e
    by (subst selection_loop.simps)
      (simp add: inp a b c d example_listing_def example_collection_def)
qed

theorem get_user_selection_invalid_token_witness:
  "fst (get_user_selection example_listing ''borrar''
          \<lparr>stdin = [Line ''1,x,2'', Line ''3''], net = [], out = []\<rparr>) = Inr None
   \<and> stdin (snd (get_user_selection example_listing ''borrar''
          \<lparr>stdin = [Line ''1,x,2'', Line ''3''], net = [], out = []\<rparr>)) = [Line ''3'']"
proof -
  have inp: "input \<lparr>stdin = [Line ''1,x,2'', Line ''3''], net = [], out = []\<rparr>
      = (Inr ''1,x,2'', \<lparr>stdin = [Line ''3''], net = [], out = []\<rparr>)"
    by (simp add: input_def)
  have a: "strip ''1,x,2'' = ''1,x,2''" by code_simp
  have ne: "strip ''1,x,2'' \<noteq> []" by (simp add: a)
  have nall: "\<not> (''borrar'' = ''borrar'' \<and> lower (strip ''1,x,2'') \<in> set [''all'', ''*'', ''todas''])"
    by (simp add: a lower_def)
  have x: "py_int ''x'' = None" by code_simp
  have bad: "\<exists>t\<in>set (map strip (split CHR '','' (strip ''1,x,2''))).
                (case py_int t of None \<Rightarrow> True
                 | Some n \<Rightarrow> \<not> (1 \<le> n \<and> n \<le> int (length example_listing)))"
  proof
    show "''x'' \<in> set (map strip (split CHR '','' (strip ''1,x,2'')))" by code_simp
    show "case py_int ''x'' of None \<Rightarrow> True
          | Some n \<Rightarrow> \<not> (1 \<le> n \<and> n \<le> int (length example_listing))" by (simp add: x)
  qed
  from get_user_selection_invalid_token [OF inp ne nall bad] show ?thesis by simp
qed


section \<open>The create flow\<close>

lemma out_input: "input w = (x, w1) \<Longrightarrow> out w1 = out w \<and> net w1 = net w"
  by (auto simp: input_def split: list.splits key.splits)

lemma get_collections_calls:
  "calls (out (snd (get_collections m w))) = calls (out w) @ [(list_url m, next_reply (net w))]"
  by (auto simp: get_collections_def http_eq list_url_def
      split: reply.splits body.splits result.splits)

text \<open>
  Claim C4. In the name loop of the create flow, a name that is blank after stripping is
  rejected with a warning and the loop asks again, without any request; a name that is
  among the names of the listing fetched for this very answer is rejected with an error
  and the loop asks again, and the only request of that pass is the \<^verbatim>\<open>GET\<close> of the
  listing. No \<^verbatim>\<open>PUT\<close> is sent for the rejected name.
\<close>

theorem ask_name_rejects:
  assumes inp: "input w = (Inr l, w1)"
  shows "(strip l = [] \<longrightarrow>
            ask_name m w = ask_name m (print_warning ''El nombre no puede estar vacio'' [] w1)
            \<and> calls (out (print_warning ''El nombre no puede estar vacio'' [] w1)) = calls (out w))
       \<and> (\<forall>cols w2. strip l \<noteq> [] \<and> get_collections m w1 = (Some cols, w2)
              \<and> strip l \<in> set (map col_name cols) \<longrightarrow>
            ask_name m w = ask_name m (print_error ''La coleccion ya existe'' [Str (strip l)] w2)
            \<and> calls (out (print_error ''La coleccion ya existe'' [Str (strip l)] w2))
                 = calls (out w) @ [(list_url m, next_reply (net w))])"
proof (intro conjI impI allI)
  assume "strip l = []"
  then show "ask_name m w = ask_name m (print_warning ''El nombre no puede estar vacio'' [] w1)"
    by (simp add: ask_name.simps [of m w] inp)
  show "calls (out (print_warning ''El nombre no puede estar vacio'' [] w1)) = calls (out w)"
    using out_input [OF inp] by simp
next
  fix cols w2
  assume a: "strip l \<noteq> [] \<and> get_collections m w1 = (Some cols, w2)
              \<and> strip l \<in> set (map col_name cols)"
  then have "cols \<noteq> []" by auto
  with a show "ask_name m w = ask_name m (print_error ''La coleccion ya existe'' [Str (strip l)] w2)"
    by (simp add: ask_name.simps [of m w] inp)
  from a get_collections_calls [of m w1] out_input [OF inp]
  show "calls (out (print_error ''La coleccion ya existe'' [Str (strip l)] w2))
          = calls (out w) @ [(list_url m, next_reply (net w))]"
    by simp
qed

theorem ask_name_unchecked:
  assumes inp: "input w = (Inr l, w1)"
    and ne: "strip l \<noteq> []"
    and fail: "get_collections m w1 = (None, w2)"
  shows "ask_name m w = (Inr (strip l), w2)"
  by (simp add: ask_name.simps [of m w] inp ne fail)

lemma ask_vector_size_positive:
  "ask_vector_size w = (Inr n, w') \<Longrightarrow> 0 < n"
proof (induction "length (stdin w)" arbitrary: w rule: less_induct)
  case less
  obtain x w1 where i: "input w = (x, w1)" by (cases "input w")
  show ?case
  proof (cases x)
    case (Inl e)
    with i less.prems show ?thesis by (simp add: ask_vector_size.simps [of w])
  next
    case (Inr l)
    with i have lt: "length (stdin w1) < length (stdin w)" by (simp add: input_lt)
    let ?w1 = "print_warning ''Tamano muy grande, estas seguro?'' [] w1"
    obtain y w2 where j: "input ?w1 = (y, w2)" by (cases "input ?w1")
    have le2: "length (stdin w2) \<le> length (stdin w1)" using input_le [OF j] by simp
    have rec: "0 < n" if "ask_vector_size v = (Inr n, w')" "length (stdin v) \<le> length (stdin w1)" for v
      using less.hyps [of v] lt that by simp
    show ?thesis
      using less.prems le2
      by (auto simp: ask_vector_size.simps [of w] i j Inr
          split: option.splits sum.splits if_splits dest: rec)
  qed
qed

text \<open>
  Claim C6. The vector-size loop never returns a size that is not positive. For the line
  it reads: a blank line gives 1536; a line that \<^verbatim>\<open>int\<close> reads as a number that is zero
  or negative is rejected with an error and the loop asks again; a number above 65536 is
  followed by a confirmation prompt, accepted when the answer is one of the yes words and
  asked again otherwise (an interrupt or the end of input at that prompt leaves the
  loop); a number from 1 to 65536 is accepted at once.
\<close>

theorem ask_vector_size_validation:
  "(\<forall>n w'. ask_vector_size w = (Inr n, w') \<longrightarrow> 0 < n)
   \<and> (\<forall>l w1. input w = (Inr l, w1) \<longrightarrow>
        (strip l = [] \<longrightarrow> ask_vector_size w = (Inr 1536, w1))
        \<and> (\<forall>n. py_int (strip l) = Some n \<and> n \<le> 0 \<longrightarrow>
              ask_vector_size w
                = ask_vector_size (print_error ''El tamano debe ser mayor que 0'' [] w1))
        \<and> (\<forall>n. py_int (strip l) = Some n \<and> 65536 < n \<longrightarrow>
              (case input (print_warning ''Tamano muy grande, estas seguro?'' [] w1) of
                 (Inl e, w2) \<Rightarrow> ask_vector_size w = (Inl e, w2)
               | (Inr confirm, w2) \<Rightarrow>
                   ask_vector_size w
                     = (if lower (strip confirm) \<in> set yes_words then (Inr n, w2)
                        else ask_vector_size w2)))
        \<and> (\<forall>n. py_int (strip l) = Some n \<and> 0 < n \<and> n \<le> 65536 \<longrightarrow>
              ask_vector_size w = (Inr n, w1)))"
proof (intro conjI allI impI)
  fix n w' assume "ask_vector_size w = (Inr n, w')"
  then show "0 < n" by (rule ask_vector_size_positive)
next
  fix l w1 assume "input w = (Inr l, w1)" "strip l = []"
  then show "ask_vector_size w = (Inr 1536, w1)"
    by (simp add: ask_vector_size.simps [of w])
next
  fix l w1 n assume "input w = (Inr l, w1)" "py_int (strip l) = Some n \<and> n \<le> 0"
  moreover from this have "strip l \<noteq> []" by (auto simp: py_int_def)
  ultimately show "ask_vector_size w
      = ask_vector_size (print_error ''El tamano debe ser mayor que 0'' [] w1)"
    by (simp add: ask_vector_size.simps [of w])
next
  fix l w1 n assume a: "input w = (Inr l, w1)" "py_int (strip l) = Some n \<and> 65536 < n"
  moreover from this have "strip l \<noteq> []" by (auto simp: py_int_def)
  ultimately show "case input (print_warning ''Tamano muy grande, estas seguro?'' [] w1) of
                 (Inl e, w2) \<Rightarrow> ask_vector_size w = (Inl e, w2)
               | (Inr confirm, w2) \<Rightarrow>
                   ask_vector_size w
                     = (if lower (strip confirm) \<in> set yes_words then (Inr n, w2)
                        else ask_vector_size w2)"
    by (auto simp: ask_vector_size.simps [of w] split: prod.splits sum.splits)
next
  fix l w1 n assume "input w = (Inr l, w1)" "py_int (strip l) = Some n \<and> 0 < n \<and> n \<le> 65536"
  moreover from this have "strip l \<noteq> []" by (auto simp: py_int_def)
  ultimately show "ask_vector_size w = (Inr n, w1)"
    by (simp add: ask_vector_size.simps [of w])
qed


lemma get_collections_result:
  "fst (get_collections m w) = collections_of (next_reply (net w))"
  "net (snd (get_collections m w)) = tl (net w)"
  by (auto simp: get_collections_def http_eq collections_of_def
      split: reply.splits body.splits result.splits)

lemma input_Line: "stdin w = Line l # ks \<Longrightarrow> input w = (Inr l, w\<lparr>stdin := ks\<rparr>)"
  by (simp add: input_def)

lemma create_collection_calls:
  "calls (out (snd (create_collection m nm cfg w)))
     = calls (out w) @ [(PUT (base_url m @ ''/collections/'' @ nm) cfg, next_reply (net w))]"
  by (auto simp: create_collection_def http_eq split: reply.splits body.splits)

lemma get_collection_info_calls:
  "calls (out (snd (get_collection_info m nm w)))
     = calls (out w) @ [(GET (base_url m @ ''/collections/'' @ nm), next_reply (net w))]"
  by (auto simp: get_collection_info_def http_eq split: reply.splits body.splits result.splits)

lemma lower_y: "lower (strip ''y'') \<in> set yes_words"
  by code_simp

text \<open>
  Claim C9. When the request for the listing made to validate a non-blank name brings no
  list (any reply for which \<^verbatim>\<open>get_collections\<close> returns \<^verbatim>\<open>None\<close>), the name is accepted
  without the duplicate check and without another prompt, whatever collections exist.
  If the user then accepts the default size and distance and confirms, the create action
  sends the \<^verbatim>\<open>PUT\<close> for that name.
\<close>

theorem create_name_unchecked:
  assumes inp: "stdin w = Line l # ks"
    and ne: "strip l \<noteq> []"
    and fail: "collections_of (next_reply (net w)) = None"
  shows "fst (ask_name m w) = Inr (strip l) \<and> stdin (snd (ask_name m w)) = ks
     \<and> (\<forall>ks'. ks = Line [] # Line [] # Line ''y'' # ks' \<longrightarrow>
          (PUT (base_url m @ ''/collections/'' @ strip l) \<lparr>vsize = 1536, vdistance = ''Cosine''\<rparr>,
           next_reply (tl (net w)))
            \<in> set (calls (out (snd (create_action m w)))))"
proof -
  have name: "ask_name m v = (Inr (strip l), snd (get_collections m (v\<lparr>stdin := ks\<rparr>)))"
    if "stdin v = Line l # ks" "net v = net w" for v
  proof -
    have "fst (get_collections m (v\<lparr>stdin := ks\<rparr>)) = None"
      using get_collections_result(1) [of m "v\<lparr>stdin := ks\<rparr>"] fail that by simp
    then show ?thesis
      by (cases "get_collections m (v\<lparr>stdin := ks\<rparr>)")
        (simp add: ask_name.simps [of m v] input_Line [OF that(1)] ne)
  qed
  have first: "fst (ask_name m w) = Inr (strip l) \<and> stdin (snd (ask_name m w)) = ks"
    using name [of w] inp by simp
  have put: "(PUT (base_url m @ ''/collections/'' @ strip l) \<lparr>vsize = 1536, vdistance = ''Cosine''\<rparr>,
           next_reply (tl (net w))) \<in> set (calls (out (snd (create_action m w))))"
    if ks: "ks = Line [] # Line [] # Line ''y'' # ks'" for ks'
  proof -
    let ?w0 = "print Plain ''Configuracion de nueva coleccion'' [] w"
    let ?w1 = "snd (get_collections m (?w0\<lparr>stdin := ks\<rparr>))"
    have n: "ask_name m ?w0 = (Inr (strip l), ?w1)" using name [of ?w0] inp by simp
    have s1: "stdin ?w1 = ks" by simp
    have n1: "net ?w1 = tl (net w)" by (simp add: get_collections_result(2))
    let ?w2 = "print Plain ''Tamano del vector (dimensiones)'' [] ?w1"
    let ?w3 = "?w2\<lparr>stdin := Line [] # Line ''y'' # ks'\<rparr>"
    have "stdin ?w2 = Line [] # Line [] # Line ''y'' # ks'" using s1 ks by simp
    then have "input ?w2 = (Inr [], ?w3)" by (rule input_Line)
    then have v: "ask_vector_size ?w2 = (Inr 1536, ?w3)"
      by (subst ask_vector_size.simps) simp
    let ?w4 = "print Plain ''Funcion de distancia'' [] ?w3"
    let ?w5 = "?w4\<lparr>stdin := Line ''y'' # ks'\<rparr>"
    have "stdin ?w4 = Line [] # Line ''y'' # ks'" by simp
    then have "input ?w4 = (Inr [], ?w5)" by (rule input_Line)
    then have d: "ask_distance ?w4 = (Inr ''Cosine'', ?w5)"
      by (subst ask_distance.simps) (simp add: distance_options_def)
    let ?w6 = "print Plain ''Resumen de configuracion'' [Str (strip l), Num 1536, Str ''Cosine''] ?w5"
    let ?w7 = "?w6\<lparr>stdin := ks'\<rparr>"
    have "stdin ?w6 = Line ''y'' # ks'" by simp
    then have c: "input ?w6 = (Inr ''y'', ?w7)" by (rule input_Line)
    have cfg: "config_prompts m ?w0
        = (Inr (Some (strip l, \<lparr>vsize = 1536, vdistance = ''Cosine''\<rparr>)), ?w7)"
      by (simp add: config_prompts_def n v d c lower_y)
    have gc: "get_collection_config m w
        = (Inr (Some (strip l, \<lparr>vsize = 1536, vdistance = ''Cosine''\<rparr>)), ?w7)"
      by (simp add: get_collection_config_def cfg)
    have n7: "net ?w7 = tl (net w)" using n1 by simp
    let ?cfg = "\<lparr>vsize = 1536, vdistance = ''Cosine''\<rparr>"
    obtain b w8 where cr: "create_collection m (strip l) ?cfg ?w7 = (b, w8)"
      by (cases "create_collection m (strip l) ?cfg ?w7")
    have c8: "calls (out w8) = calls (out ?w7)
        @ [(PUT (base_url m @ ''/collections/'' @ strip l) ?cfg, next_reply (tl (net w)))]"
      using create_collection_calls [of m "strip l" ?cfg ?w7] cr n7 by simp
    let ?w9 = "print_info ''Verificando coleccion creada...'' [] w8"
    obtain i w10 where gi: "get_collection_info m (strip l) ?w9 = (i, w10)"
      by (cases "get_collection_info m (strip l) ?w9")
    have c10: "calls (out w10) = calls (out w8)
        @ [(GET (base_url m @ ''/collections/'' @ strip l), next_reply (net ?w9))]"
      using get_collection_info_calls [of m "strip l" ?w9] gi by simp
    show ?thesis
      using c8 c10
      by (simp add: create_action_def gc cr gi split: bool.splits option.splits)
  qed
  from first put show ?thesis by blast
qed




theorem ask_name_rejects_witness:
  "ask_name example_manager \<lparr>stdin = [Line ''  '', Line ''b''], net = [listing_reply], out = []\<rparr>
     = ask_name example_manager
         \<lparr>stdin = [Line ''b''], net = [listing_reply],
          out = [Print Warning ''El nombre no puede estar vacio'' []]\<rparr>
   \<and> ask_name example_manager \<lparr>stdin = [Line ''b''], net = [listing_reply], out = []\<rparr>
     = ask_name example_manager
         \<lparr>stdin = [], net = [],
          out = [Call (list_url example_manager) listing_reply,
                 Print Error ''La coleccion ya existe'' [Str ''b'']]\<rparr>"
proof -
  let ?wa = "\<lparr>stdin = [Line ''  '', Line ''b''], net = [listing_reply], out = []\<rparr>"
  let ?wa1 = "\<lparr>stdin = [Line ''b''], net = [listing_reply], out = []\<rparr>"
  have ia: "input ?wa = (Inr ''  '', ?wa1)" by (simp add: input_def)
  have sa: "strip ''  '' = []" by code_simp
  from ask_name_rejects [OF ia, of example_manager] sa
  have a: "ask_name example_manager ?wa
      = ask_name example_manager (print_warning ''El nombre no puede estar vacio'' [] ?wa1)"
    by simp
  let ?wb1 = "\<lparr>stdin = [], net = [listing_reply], out = []\<rparr>"
  let ?wb2 = "\<lparr>stdin = [], net = [], out = [Call (list_url example_manager) listing_reply]\<rparr>"
  have ib: "input ?wa1 = (Inr ''b'', ?wb1)" by (simp add: input_def)
  have sb: "strip ''b'' = ''b''" by code_simp
  have gb: "get_collections example_manager ?wb1 = (Some example_listing, ?wb2)"
    by (simp add: get_collections_def http_def listing_reply_def list_url_def)
  have mb: "''b'' \<in> set (map col_name example_listing)"
    by (simp add: example_listing_def example_collection_def)
  from ask_name_rejects [OF ib, of example_manager] sb gb mb
  have b: "ask_name example_manager ?wa1
      = ask_name example_manager (print_error ''La coleccion ya existe'' [Str ''b''] ?wb2)"
    by simp
  from a b show ?thesis
    by (simp add: print_warning_def print_error_def print_def emit_def)
qed



theorem ask_vector_size_validation_witness:
  "ask_vector_size \<lparr>stdin = [Line []], net = [], out = []\<rparr>
     = (Inr 1536, \<lparr>stdin = [], net = [], out = []\<rparr>)
   \<and> ask_vector_size \<lparr>stdin = [Line ''0'', Line ''768''], net = [], out = []\<rparr>
     = ask_vector_size
         \<lparr>stdin = [Line ''768''], net = [], out = [Print Error ''El tamano debe ser mayor que 0'' []]\<rparr>
   \<and> ask_vector_size \<lparr>stdin = [Line ''70000'', Line ''y''], net = [], out = []\<rparr>
     = (Inr 70000, \<lparr>stdin = [], net = [],
                    out = [Print Warning ''Tamano muy grande, estas seguro?'' []]\<rparr>)
   \<and> ask_vector_size \<lparr>stdin = [Line ''70000'', Line ''n'', Line ''3072''], net = [], out = []\<rparr>
     = ask_vector_size
         \<lparr>stdin = [Line ''3072''], net = [],
          out = [Print Warning ''Tamano muy grande, estas seguro?'' []]\<rparr>
   \<and> ask_vector_size \<lparr>stdin = [Line ''3072''], net = [], out = []\<rparr>
     = (Inr 3072, \<lparr>stdin = [], net = [], out = []\<rparr>)"
proof -
  let ?wa = "\<lparr>stdin = [Line []], net = [], out = []\<rparr>"
  let ?w0 = "\<lparr>stdin = [], net = [], out = []\<rparr>"
  have ia: "input ?wa = (Inr [], ?w0)" by (simp add: input_def)
  from ask_vector_size_validation [of ?wa, THEN conjunct2, rule_format, OF ia, THEN conjunct1]
  have a: "ask_vector_size ?wa = (Inr 1536, ?w0)" by simp
  let ?wb = "\<lparr>stdin = [Line ''0'', Line ''768''], net = [], out = []\<rparr>"
  let ?wb1 = "\<lparr>stdin = [Line ''768''], net = [], out = []\<rparr>"
  have ib: "input ?wb = (Inr ''0'', ?wb1)" by (simp add: input_def)
  have pb: "py_int (strip ''0'') = Some 0"
    by (simp add: py_int_def strip_def py_isspace_def parse_nat_def is_digit_def digit_value_def)
  from ask_vector_size_validation [of ?wb, THEN conjunct2, rule_format, OF ib,
      THEN conjunct2, THEN conjunct1, rule_format, of 0] pb
  have b: "ask_vector_size ?wb
      = ask_vector_size (print_error ''El tamano debe ser mayor que 0'' [] ?wb1)" by simp
  let ?wc = "\<lparr>stdin = [Line ''70000'', Line ''y''], net = [], out = []\<rparr>"
  let ?wc1 = "\<lparr>stdin = [Line ''y''], net = [], out = []\<rparr>"
  have ic: "input ?wc = (Inr ''70000'', ?wc1)" by (simp add: input_def)
  have pc: "py_int (strip ''70000'') = Some 70000"
    by (simp add: py_int_def strip_def py_isspace_def parse_nat_def is_digit_def digit_value_def)
  have yc: "lower (strip ''y'') \<in> set yes_words" by code_simp
  from ask_vector_size_validation [of ?wc, THEN conjunct2, rule_format, OF ic,
      THEN conjunct2, THEN conjunct2, THEN conjunct1, rule_format, of 70000] pc yc
  have c: "ask_vector_size ?wc
      = (Inr 70000, \<lparr>stdin = [], net = [],
                     out = [Print Warning ''Tamano muy grande, estas seguro?'' []]\<rparr>)"
    by (simp add: input_def print_warning_def print_def emit_def)
  let ?wd = "\<lparr>stdin = [Line ''70000'', Line ''n'', Line ''3072''], net = [], out = []\<rparr>"
  let ?wd1 = "\<lparr>stdin = [Line ''n'', Line ''3072''], net = [], out = []\<rparr>"
  have id: "input ?wd = (Inr ''70000'', ?wd1)" by (simp add: input_def)
  have nd: "lower (strip ''n'') \<notin> set yes_words" by code_simp
  from ask_vector_size_validation [of ?wd, THEN conjunct2, rule_format, OF id,
      THEN conjunct2, THEN conjunct2, THEN conjunct1, rule_format, of 70000] pc nd
  have d: "ask_vector_size ?wd
      = ask_vector_size \<lparr>stdin = [Line ''3072''], net = [],
          out = [Print Warning ''Tamano muy grande, estas seguro?'' []]\<rparr>"
    by (simp add: input_def print_warning_def print_def emit_def)
  let ?we = "\<lparr>stdin = [Line ''3072''], net = [], out = []\<rparr>"
  have ie: "input ?we = (Inr ''3072'', ?w0)" by (simp add: input_def)
  have pe: "py_int (strip ''3072'') = Some 3072"
    by (simp add: py_int_def strip_def py_isspace_def parse_nat_def is_digit_def digit_value_def)
  from ask_vector_size_validation [of ?we, THEN conjunct2, rule_format, OF ie,
      THEN conjunct2, THEN conjunct2, THEN conjunct2, rule_format, of 3072] pe
  have e: "ask_vector_size ?we = (Inr 3072, ?w0)" by simp
  from a b c d e show ?thesis
    by (simp add: print_error_def print_def emit_def)
qed



theorem create_name_unchecked_witness:
  "fst (ask_name example_manager
          \<lparr>stdin = [Line ''docs'', Line [], Line [], Line ''y''],
           net = [rejected, accepted], out = []\<rparr>) = Inr ''docs''
   \<and> (PUT ''http://qdrant:6333/collections/docs'' \<lparr>vsize = 1536, vdistance = ''Cosine''\<rparr>, accepted)
       \<in> set (calls (out (snd (create_action example_manager
                 \<lparr>stdin = [Line ''docs'', Line [], Line [], Line ''y''],
                  net = [rejected, accepted], out = []\<rparr>))))"
proof -
  let ?w = "\<lparr>stdin = [Line ''docs'', Line [], Line [], Line ''y''],
             net = [rejected, accepted], out = []\<rparr>"
  have i: "stdin ?w = Line ''docs'' # [Line [], Line [], Line ''y'']" by simp
  have s: "strip ''docs'' = ''docs''" by code_simp
  have ne: "strip ''docs'' \<noteq> []" by (simp add: s)
  have f: "collections_of (next_reply (net ?w)) = None"
    by (simp add: next_reply_def rejected_def collections_of_def)
  from create_name_unchecked [OF i ne f, of example_manager]
  show ?thesis by (simp add: s next_reply_def example_manager_def)
qed



section \<open>Exit status and interrupts\<close>

lemma init_result:
  "fst (init env w) = Inl (SystemExit 1) \<or> (\<exists>m. fst (init env w) = Inr m)"
  "(fst (init env w) = Inl (SystemExit 1)) = falsy (env ''QDRANT_HOST'')"
  "net (snd (init env w)) = net w"
  by (auto simp: init_def load_config_def falsy_def Let_def split: option.splits)

lemma test_connection_result:
  "fst (test_connection m w) = root_ok (next_reply (net w))"
  by (auto simp: test_connection_def http_eq root_ok_def split: reply.splits net_error.splits)

lemma net_print_banner [simp]: "net (print_banner m w) = net w"
  by (simp add: print_banner_def)

lemma run_result:
  "fst (run m w) = (if root_ok (next_reply (net w)) then Inr () else Inl (SystemExit 1))"
proof -
  obtain b w1 where t: "test_connection m (print_banner m w) = (b, w1)"
    by (cases "test_connection m (print_banner m w)")
  with test_connection_result [of m "print_banner m w"]
  have b: "b = root_ok (next_reply (net w))" by simp
  obtain r w2 where l: "run_loop m w1 = (r, w2)" by (cases "run_loop m w1")
  show ?thesis
  proof (cases b)
    case False
    with t b show ?thesis by (simp add: run_def)
  next
    case True
    show ?thesis
    proof (cases r)
      case (Inr u)
      with t b l True show ?thesis by (simp add: run_def)
    next
      case (Inl e)
      with t b l True show ?thesis by (cases e) (simp_all add: run_def is_Exception_def)
    qed
  qed
qed

text \<open>
  Claim C7. The exit status of the process is 1 when \<^verbatim>\<open>QDRANT_HOST\<close> is missing or empty,
  or when the first request (the connectivity check) does not get a response with status
  200; in every other case it is 0. Choosing 5 at the menu leaves the menu loop normally,
  so quitting is one of the cases with status 0.
\<close>

theorem main_exit_code:
  "fst (main env w)
     = (if falsy (env ''QDRANT_HOST'') \<or> \<not> root_ok (next_reply (net w)) then 1 else 0)
   \<and> (\<forall>m v v1. show_main_menu v = (Inr ''5'', v1) \<longrightarrow> run_loop m v = (Inr (), v1))"
proof
  obtain a w1 where i: "init env w = (a, w1)" by (cases "init env w")
  with init_result [of env w]
  have a: "a = Inl (SystemExit 1) \<or> (\<exists>m. a = Inr m)"
    and f: "(a = Inl (SystemExit 1)) = falsy (env ''QDRANT_HOST'')"
    and n: "net w1 = net w" by simp_all
  show "fst (main env w)
     = (if falsy (env ''QDRANT_HOST'') \<or> \<not> root_ok (next_reply (net w)) then 1 else 0)"
  proof (cases "falsy (env ''QDRANT_HOST'')")
    case True
    with f i show ?thesis by (simp add: main_def main_except_def)
  next
    case False
    with f a obtain m where m: "a = Inr m" by auto
    obtain r w2 where r: "run m w1 = (r, w2)" by (cases "run m w1")
    with run_result [of m w1] n
    have "r = (if root_ok (next_reply (net w)) then Inr () else Inl (SystemExit 1))" by simp
    with False i m r show ?thesis by (simp add: main_def main_except_def)
  qed
next
  show "\<forall>m v v1. show_main_menu v = (Inr ''5'', v1) \<longrightarrow> run_loop m v = (Inr (), v1)"
    by (simp add: run_loop.simps)
qed

text \<open>
  Claim C10. When the menu loop, entered after a successful start, raises an exception of
  class \<^verbatim>\<open>Exception\<close>, \<^verbatim>\<open>run\<close> reports it with the traceback and returns normally, and
  the process ends with status 0. \<^verbatim>\<open>run\<close> returns normally or leaves through
  \<^verbatim>\<open>sys.exit(1)\<close> of the failed connectivity check and never passes an exception on, so
  the handler of \<^verbatim>\<open>main\<close> can only see an exception of the constructor.
\<close>

theorem unexpected_exception_exit:
  "(\<forall>m w0 w1 w2 e.
       init env w = (Inr m, w0) \<and> test_connection m (print_banner m w0) = (True, w1)
       \<and> run_loop m w1 = (Inl e, w2) \<and> is_Exception e \<longrightarrow>
       main env w = (0, farewell (print Plain ''Traceback'' [Exn e]
                                    (print_error ''Error inesperado'' [Exn e] w2))))
   \<and> (\<forall>m v. fst (run m v) = Inr () \<or> fst (run m v) = Inl (SystemExit 1))"
proof (intro conjI allI impI)
  fix m w0 w1 w2 e
  assume "init env w = (Inr m, w0) \<and> test_connection m (print_banner m w0) = (True, w1)
       \<and> run_loop m w1 = (Inl e, w2) \<and> is_Exception e"
  then show "main env w = (0, farewell (print Plain ''Traceback'' [Exn e]
                                    (print_error ''Error inesperado'' [Exn e] w2)))"
    by (auto simp: main_def run_def is_Exception_def)
next
  fix m v
  show "fst (run m v) = Inr () \<or> fst (run m v) = Inl (SystemExit 1)"
    by (simp add: run_result)
qed



text \<open>
  Claim C5. The claim does not hold for the confirmation prompt of the delete action.
  \<^verbatim>\<open>confirm_deletion\<close> has no handler for \<^verbatim>\<open>KeyboardInterrupt\<close>, unlike the prompts of
  \<^verbatim>\<open>get_user_selection\<close> and \<^verbatim>\<open>get_collection_config\<close>, so Ctrl-C there reaches the handler
  around the menu loop and ends the program. The run below chooses 4, selects 1 and
  presses Ctrl-C at the confirmation: the program says it was interrupted and ends with
  status 0, the menu is not shown again and the two remaining lines are never read.
\<close>

theorem interrupt_at_confirmation:
  "main example_env
     \<lparr>stdin = [Line ''4'', Line ''1'', Interrupt, Line [], Line ''1''],
      net = [root_reply, listing_reply], out = []\<rparr>
   = (0, \<lparr>stdin = [Line [], Line ''1''], net = [],
          out = startup_trace @
            [Print Plain ''MENU PRINCIPAL'' [],
             Call (list_url example_manager) listing_reply,
             Table example_listing,
             Print Plain ''Total'' [Num 3],
             Print Plain ''Opciones de seleccion para'' [Str ''borrar''],
             Print Plain ''CONFIRMACION DE BORRADO'' [Strs [''a'']],
             Print Plain ''Programa interrumpido por el usuario'' [],
             Print Plain ''Gracias por usar Qdrant Collection Manager Enhanced!'' []]\<rparr>)"
  by code_simp


text \<open>
  The same key at the selection prompt of the same action cancels the action only: the
  menu is shown again and the next choice is read.
\<close>

lemma interrupt_at_selection:
  "main example_env
     \<lparr>stdin = [Line ''4'', Interrupt, Line [], Line ''5''],
      net = [root_reply, listing_reply], out = []\<rparr>
   = (0, \<lparr>stdin = [], net = [],
          out = startup_trace @
            [Print Plain ''MENU PRINCIPAL'' [],
             Call (list_url example_manager) listing_reply,
             Table example_listing,
             Print Plain ''Total'' [Num 3],
             Print Plain ''Opciones de seleccion para'' [Str ''borrar''],
             Print Plain ''Operacion cancelada por el usuario'' [],
             Print Plain ''MENU PRINCIPAL'' [],
             Print Plain ''Gracias por usar Qdrant Collection Manager Enhanced!'' []]\<rparr>)"
  by code_simp

theorem main_exit_code_witness:
  "fst (main Map.empty \<lparr>stdin = [Line ''5''], net = [root_reply], out = []\<rparr>) = 1
   \<and> fst (main example_env \<lparr>stdin = [Line ''5''], net = [rejected], out = []\<rparr>) = 1
   \<and> fst (main example_env \<lparr>stdin = [Line ''5''], net = [root_reply], out = []\<rparr>) = 0"
proof -
  have a: "falsy (Map.empty ''QDRANT_HOST'')" by (simp add: falsy_def)
  have b: "\<not> falsy (example_env ''QDRANT_HOST'')" by (simp add: falsy_def example_env_def)
  have c: "\<not> root_ok (next_reply [rejected])" "root_ok (next_reply [root_reply])"
    by (simp_all add: root_ok_def next_reply_def rejected_def root_reply_def)
  from main_exit_code [of Map.empty "\<lparr>stdin = [Line ''5''], net = [root_reply], out = []\<rparr>"]
    main_exit_code [of example_env "\<lparr>stdin = [Line ''5''], net = [rejected], out = []\<rparr>"]
    main_exit_code [of example_env "\<lparr>stdin = [Line ''5''], net = [root_reply], out = []\<rparr>"]
    a b c
  show ?thesis by simp
qed


theorem unexpected_exception_exit_witness:
  "main example_env \<lparr>stdin = [Line ''4'', Line ''1''], net = [root_reply, listing_reply], out = []\<rparr>
   = (0, \<lparr>stdin = [], net = [],
          out = startup_trace @
            [Print Plain ''MENU PRINCIPAL'' [],
             Call (list_url example_manager) listing_reply,
             Table example_listing,
             Print Plain ''Total'' [Num 3],
             Print Plain ''Opciones de seleccion para'' [Str ''borrar''],
             Print Plain ''CONFIRMACION DE BORRADO'' [Strs [''a'']],
             Print Error ''Error inesperado'' [Exn EOFError],
             Print Plain ''Traceback'' [Exn EOFError],
             Print Plain ''Gracias por usar Qdrant Collection Manager Enhanced!'' []]\<rparr>)"
proof -
  let ?w = "\<lparr>stdin = [Line ''4'', Line ''1''], net = [root_reply, listing_reply], out = []\<rparr>"
  let ?wi = "\<lparr>stdin = [Line ''4'', Line ''1''], net = [root_reply, listing_reply],
              out = [Print Warning ''ADVERTENCIA: Credenciales no configuradas completamente'' []]\<rparr>"
  let ?wt = "\<lparr>stdin = [Line ''4'', Line ''1''], net = [listing_reply], out = startup_trace\<rparr>"
  let ?wl = "\<lparr>stdin = [], net = [],
              out = startup_trace @
                [Print Plain ''MENU PRINCIPAL'' [],
                 Call (list_url example_manager) listing_reply,
                 Table example_listing,
                 Print Plain ''Total'' [Num 3],
                 Print Plain ''Opciones de seleccion para'' [Str ''borrar''],
                 Print Plain ''CONFIRMACION DE BORRADO'' [Strs [''a'']]]\<rparr>"
  have i: "init example_env ?w = (Inr example_manager, ?wi)" by code_simp
  have t: "test_connection example_manager (print_banner example_manager ?wi) = (True, ?wt)"
    by code_simp
  have l: "run_loop example_manager ?wt = (Inl EOFError, ?wl)" by code_simp
  have e: "is_Exception EOFError" by (simp add: is_Exception_def)
  from unexpected_exception_exit [of example_env ?w, THEN conjunct1, rule_format,
      of example_manager ?wi ?wt EOFError ?wl] i t l e
  have "main example_env ?w = (0, farewell (print Plain ''Traceback'' [Exn EOFError]
                                    (print_error ''Error inesperado'' [Exn EOFError] ?wl)))"
    by blast
  then show ?thesis by (simp add: farewell_def print_def print_error_def emit_def)
qed



section \<open>Listings are fetched anew\<close>

text \<open>
  Three relations between an earlier and a later world for the proofs: the trace grew
  by events without a table, by events that show fresh listings, or by any events.
\<close>

definition quiet :: "event list \<Rightarrow> bool" where
  "quiet evs = list_all (\<lambda>e. \<not> is_table e) evs"

definition extends :: "world \<Rightarrow> world \<Rightarrow> bool" where
  "extends w w' = (\<exists>evs. out w' = out w @ evs \<and> quiet evs)"

definition fextends :: "manager \<Rightarrow> world \<Rightarrow> world \<Rightarrow> bool" where
  "fextends m w w' = (\<exists>evs. out w' = out w @ evs \<and> fresh_listings m evs)"

lemma quiet_simps [simp]:
  "quiet []" "quiet (e # es) = (\<not> is_table e \<and> quiet es)" "quiet (xs @ ys) = (quiet xs \<and> quiet ys)"
  by (simp_all add: quiet_def)

lemma is_table_simps [simp]:
  "is_table (Table cols)" "\<not> is_table (Print lv t a)" "\<not> is_table (Call rq r)"
  "\<not> is_table (Detail nm i)"
  by (simp_all add: is_table_def)

lemma quiet_fresh: "quiet evs \<Longrightarrow> fresh_after m p evs"
  by (induction evs arbitrary: p) (auto simp: is_table_def split: event.splits)

lemma fresh_None_any: "fresh_after m None evs \<Longrightarrow> fresh_after m p evs"
  by (cases evs) (auto split: event.splits)

lemma fresh_append:
  "fresh_after m p xs \<Longrightarrow> fresh_after m None ys \<Longrightarrow> fresh_after m p (xs @ ys)"
  by (induction xs arbitrary: p) (auto intro: fresh_None_any)

lemma extends_refl [simp]: "extends w w"
  by (simp add: extends_def)

lemma extends_trans: "extends w w1 \<Longrightarrow> extends w1 w2 \<Longrightarrow> extends w w2"
  by (auto simp: extends_def)

lemma extends_out: "out w2 = out w1 \<Longrightarrow> extends w w1 \<Longrightarrow> extends w w2"
  by (auto simp: extends_def)

lemma extends_more: "out w2 = out w1 @ evs \<Longrightarrow> quiet evs \<Longrightarrow> extends w w1 \<Longrightarrow> extends w w2"
  by (auto simp: extends_def)

lemma extends_print [simp]:
  "extends w w1 \<Longrightarrow> extends w (print lv t a w1)"
  "extends w w1 \<Longrightarrow> extends w (print_error t a w1)"
  "extends w w1 \<Longrightarrow> extends w (print_warning t a w1)"
  "extends w w1 \<Longrightarrow> extends w (print_info t a w1)"
  "extends w w1 \<Longrightarrow> extends w (print_success t a w1)"
  by (auto intro: extends_more [where evs = "[Print _ _ _]"])

lemma extends_detail [simp]: "extends w w1 \<Longrightarrow> extends w (emit (Detail nm i) w1)"
  by (auto intro: extends_more [where evs = "[Detail _ _]"])

lemma extends_input: "input w1 = (x, w2) \<Longrightarrow> extends w w1 \<Longrightarrow> extends w w2"
  by (auto simp: input_def split: list.splits key.splits intro: extends_out)

lemma extends_http: "http rq w1 = (r, w2) \<Longrightarrow> extends w w1 \<Longrightarrow> extends w w2"
  by (auto simp: http_eq intro: extends_more [where evs = "[Call _ _]"])

lemma extends_get_collections:
  "get_collections m w1 = (r, w2) \<Longrightarrow> extends w w1 \<Longrightarrow> extends w w2"
  by (cases "http (GET (base_url m @ ''/collections'')) w1")
    (auto simp: get_collections_def split: reply.splits body.splits result.splits if_splits
      dest: extends_http)

lemma extends_create_collection:
  "create_collection m nm cfg w1 = (r, w2) \<Longrightarrow> extends w w1 \<Longrightarrow> extends w w2"
  by (cases "http (PUT (base_url m @ ''/collections/'' @ nm) cfg)
               (print_info ''Creando coleccion'' [Str nm] w1)")
    (auto simp: create_collection_def split: reply.splits body.splits if_splits
      dest!: extends_http [where w = w])

lemma extends_get_collection_info:
  "get_collection_info m nm w1 = (r, w2) \<Longrightarrow> extends w w1 \<Longrightarrow> extends w w2"
  by (cases "http (GET (base_url m @ ''/collections/'' @ nm)) w1")
    (auto simp: get_collection_info_def split: reply.splits body.splits result.splits if_splits
      dest: extends_http)

lemma extends_delete_collection:
  "delete_collection m nm w1 = (r, w2) \<Longrightarrow> extends w w1 \<Longrightarrow> extends w w2"
  by (cases "http (DELETE (base_url m @ ''/collections/'' @ nm)) w1")
    (auto simp: delete_collection_def split: reply.splits body.splits if_splits
      dest: extends_http)

lemma extends_ask_name: "extends w0 w \<Longrightarrow> extends w0 (snd (ask_name m w))"
proof (induction "length (stdin w)" arbitrary: w rule: less_induct)
  case less
  obtain x w1 where i: "input w = (x, w1)" by (cases "input w")
  have e1: "extends w0 w1" using extends_input [OF i less.prems] .
  obtain y w2 where g: "get_collections m w1 = (y, w2)" by (cases "get_collections m w1")
  have e2: "extends w0 w2" using extends_get_collections [OF g e1] .
  have s2: "stdin w2 = stdin w1" using stdin_get_collections_eq [OF g] .
  show ?case
  proof (cases x)
    case (Inl e)
    with i e1 show ?thesis by (simp add: ask_name.simps [of m w])
  next
    case (Inr l)
    with i have lt: "length (stdin w1) < length (stdin w)" by (simp add: input_lt)
    have rec: "extends w0 (snd (ask_name m w'))"
      if "length (stdin w') \<le> length (stdin w1)" "extends w0 w'" for w'
      using less.hyps [of w'] lt that by simp
    show ?thesis
      using e1 e2 s2
      by (simp add: ask_name.simps [of m w] i g Inr rec split: option.splits)
  qed
qed

lemma extends_ask_vector_size: "extends w0 w \<Longrightarrow> extends w0 (snd (ask_vector_size w))"
proof (induction "length (stdin w)" arbitrary: w rule: less_induct)
  case less
  obtain x w1 where i: "input w = (x, w1)" by (cases "input w")
  have e1: "extends w0 w1" using extends_input [OF i less.prems] .
  let ?wq = "print_warning ''Tamano muy grande, estas seguro?'' [] w1"
  obtain y w2 where j: "input ?wq = (y, w2)" by (cases "input ?wq")
  have e2: "extends w0 w2" using extends_input [OF j] e1 by simp
  have le2: "length (stdin w2) \<le> length (stdin w1)" using input_le [OF j] by simp
  show ?case
  proof (cases x)
    case (Inl e)
    with i e1 show ?thesis by (simp add: ask_vector_size.simps [of w])
  next
    case (Inr l)
    with i have lt: "length (stdin w1) < length (stdin w)" by (simp add: input_lt)
    have rec: "extends w0 (snd (ask_vector_size w'))"
      if "length (stdin w') \<le> length (stdin w1)" "extends w0 w'" for w'
      using less.hyps [of w'] lt that by simp
    show ?thesis
      using e1 e2 le2
      by (simp add: ask_vector_size.simps [of w] i j Inr rec split: option.splits sum.splits)
  qed
qed

lemma extends_ask_distance: "extends w0 w \<Longrightarrow> extends w0 (snd (ask_distance w))"
proof (induction "length (stdin w)" arbitrary: w rule: less_induct)
  case less
  obtain x w1 where i: "input w = (x, w1)" by (cases "input w")
  have e1: "extends w0 w1" using extends_input [OF i less.prems] .
  show ?case
  proof (cases x)
    case (Inl e)
    with i e1 show ?thesis by (simp add: ask_distance.simps [of w])
  next
    case (Inr l)
    with i have lt: "length (stdin w1) < length (stdin w)" by (simp add: input_lt)
    have rec: "extends w0 (snd (ask_distance w'))"
      if "length (stdin w') \<le> length (stdin w1)" "extends w0 w'" for w'
      using less.hyps [of w'] lt that by simp
    show ?thesis
      using e1 by (simp add: ask_distance.simps [of w] i Inr rec split: option.splits)
  qed
qed

lemma extends_selection_loop:
  "extends w0 w \<Longrightarrow> extends w0 (snd (selection_loop cols action w))"
proof (induction "length (stdin w)" arbitrary: w rule: less_induct)
  case less
  obtain x w1 where i: "input w = (x, w1)" by (cases "input w")
  have e1: "extends w0 w1" using extends_input [OF i less.prems] .
  show ?case
  proof (cases x)
    case (Inl e)
    with i e1 show ?thesis
      by (cases e) (simp_all add: selection_loop.simps [of cols action w])
  next
    case (Inr l)
    with i have lt: "length (stdin w1) < length (stdin w)" by (simp add: input_lt)
    have rec: "extends w0 (snd (selection_loop cols action w'))"
      if "length (stdin w') \<le> length (stdin w1)" "extends w0 w'" for w'
      using less.hyps [of w'] lt that by simp
    show ?thesis
      using e1
      by (simp add: selection_loop.simps [of cols action w] i Inr rec
          split: sum.splits prod.splits)
  qed
qed

lemma extends_get_user_selection:
  "extends w0 w \<Longrightarrow> extends w0 (snd (get_user_selection cols action w))"
  by (simp add: get_user_selection_def extends_selection_loop)

lemma extends_confirm_loop: "extends w0 w \<Longrightarrow> extends w0 (snd (confirm_loop w))"
proof (induction "length (stdin w)" arbitrary: w rule: less_induct)
  case less
  obtain x w1 where i: "input w = (x, w1)" by (cases "input w")
  have e1: "extends w0 w1" using extends_input [OF i less.prems] .
  show ?case
  proof (cases x)
    case (Inl e)
    with i e1 show ?thesis by (simp add: confirm_loop.simps [of w])
  next
    case (Inr l)
    with i have lt: "length (stdin w1) < length (stdin w)" by (simp add: input_lt)
    have rec: "extends w0 (snd (confirm_loop w'))"
      if "length (stdin w') \<le> length (stdin w1)" "extends w0 w'" for w'
      using less.hyps [of w'] lt that by simp
    show ?thesis
      using e1 by (simp add: confirm_loop.simps [of w] i Inr rec)
  qed
qed

lemma extends_menu_loop: "extends w0 w \<Longrightarrow> extends w0 (snd (menu_loop w))"
proof (induction "length (stdin w)" arbitrary: w rule: less_induct)
  case less
  obtain x w1 where i: "input w = (x, w1)" by (cases "input w")
  have e1: "extends w0 w1" using extends_input [OF i less.prems] .
  show ?case
  proof (cases x)
    case (Inl e)
    with i e1 show ?thesis by (cases e) (simp_all add: menu_loop.simps [of w])
  next
    case (Inr l)
    with i have lt: "length (stdin w1) < length (stdin w)" by (simp add: input_lt)
    have rec: "extends w0 (snd (menu_loop w'))"
      if "length (stdin w') \<le> length (stdin w1)" "extends w0 w'" for w'
      using less.hyps [of w'] lt that by simp
    show ?thesis
      using e1 by (simp add: menu_loop.simps [of w] i Inr rec)
  qed
qed

lemma extends_show_main_menu: "extends w0 w \<Longrightarrow> extends w0 (snd (show_main_menu w))"
  by (simp add: show_main_menu_def extends_menu_loop)

lemma extends_confirm_deletion:
  "extends w0 w \<Longrightarrow> extends w0 (snd (confirm_deletion names w))"
  by (simp add: confirm_deletion_def extends_confirm_loop)

lemma extends_delete_loop:
  "extends w0 w \<Longrightarrow> extends w0 (snd (delete_loop m cnt i names successful failed w))"
proof (induction names arbitrary: i successful failed w)
  case Nil
  then show ?case by simp
next
  case (Cons nm rest)
  let ?wp = "print Plain ''Borrando'' [Num (int i), Num (int cnt), Str nm] w"
  obtain b w1 where d: "delete_collection m nm ?wp = (b, w1)"
    by (cases "delete_collection m nm ?wp")
  have e1: "extends w0 w1" using extends_delete_collection [OF d] Cons.prems by simp
  show ?case using d e1 Cons.IH by (cases b) simp_all
qed

lemma extends_delete_collections:
  "extends w0 w \<Longrightarrow> extends w0 (snd (delete_collections m names w))"
  by (simp add: delete_collections_def extends_delete_loop)

lemma extends_display_results [simp]:
  "extends w0 w \<Longrightarrow> extends w0 (display_results s f operation w)"
  by (simp add: display_results_def)

lemma extends_details_loop: "extends w0 w \<Longrightarrow> extends w0 (details_loop m names w)"
proof (induction names arbitrary: w)
  case Nil
  then show ?case by simp
next
  case (Cons nm rest)
  let ?wp = "print Plain ''Detalles de'' [Str nm] w"
  obtain r w1 where d: "get_collection_info m nm ?wp = (r, w1)"
    by (cases "get_collection_info m nm ?wp")
  have e1: "extends w0 w1" using extends_get_collection_info [OF d] Cons.prems by simp
  show ?case using d e1 Cons.IH by (cases r) simp_all
qed

lemma extends_show_collection_details:
  "extends w0 w \<Longrightarrow> extends w0 (snd (show_collection_details m cols w))"
proof -
  assume a: "extends w0 w"
  obtain r w1 where c: "get_user_selection cols ''ver detalles'' w = (r, w1)"
    by (cases "get_user_selection cols ''ver detalles'' w")
  with extends_get_user_selection [OF a, of cols "''ver detalles''"]
  have "extends w0 w1" by simp
  with c show ?thesis
    by (simp add: show_collection_details_def extends_details_loop split: sum.splits option.splits)
qed

lemma extends_config_prompts: "extends w0 w \<Longrightarrow> extends w0 (snd (config_prompts m w))"
proof -
  assume a: "extends w0 w"
  obtain x w1 where n: "ask_name m w = (x, w1)" by (cases "ask_name m w")
  have e1: "extends w0 w1" using extends_ask_name [OF a, of m] n by simp
  let ?wv = "print Plain ''Tamano del vector (dimensiones)'' [] w1"
  obtain y w2 where v: "ask_vector_size ?wv = (y, w2)" by (cases "ask_vector_size ?wv")
  have e2: "extends w0 w2" using extends_ask_vector_size [of w0 ?wv] e1 v by simp
  let ?wd = "print Plain ''Funcion de distancia'' [] w2"
  obtain z w3 where d: "ask_distance ?wd = (z, w3)" by (cases "ask_distance ?wd")
  have e3: "extends w0 w3" using extends_ask_distance [of w0 ?wd] e2 d by simp
  have e4: "extends w0 w4" if "input (print lv t args w3) = (u, w4)" for lv t args u w4
    using extends_input [OF that] e3 by simp
  show ?thesis
    using e1 e2 e3
    by (auto simp: config_prompts_def n v d split: sum.splits prod.splits dest: e4)
qed

lemma extends_get_collection_config:
  "extends w0 w \<Longrightarrow> extends w0 (snd (get_collection_config m w))"
proof -
  assume a: "extends w0 w"
  let ?wc = "print Plain ''Configuracion de nueva coleccion'' [] w"
  obtain r w1 where c: "config_prompts m ?wc = (r, w1)" by (cases "config_prompts m ?wc")
  with extends_config_prompts [of w0 ?wc m] a have "extends w0 w1" by simp
  with c show ?thesis
    by (simp add: get_collection_config_def split: sum.splits exn.splits)
qed

lemma extends_create_action: "extends w0 w \<Longrightarrow> extends w0 (snd (create_action m w))"
proof -
  assume a: "extends w0 w"
  obtain r w1 where c: "get_collection_config m w = (r, w1)"
    by (cases "get_collection_config m w")
  with extends_get_collection_config [OF a, of m] have e1: "extends w0 w1" by simp
  have e2: "extends w0 w2" if "create_collection m nm cfg w1 = (b, w2)" for nm cfg b w2
    using extends_create_collection [OF that e1] .
  have e3: "extends w0 w3"
    if "create_collection m nm cfg w1 = (b, w2)"
      "get_collection_info m nm (print_info ''Verificando coleccion creada...'' [] w2) = (i, w3)"
    for nm cfg b w2 i w3
    using extends_get_collection_info [OF that(2)] e2 [OF that(1)] by simp
  show ?thesis
    using e1
    by (auto simp: create_action_def c
        split: sum.splits option.splits prod.splits bool.splits dest: e2 e3)
qed

lemma fextends_refl [simp]: "fextends m w w"
  by (simp add: fextends_def fresh_listings_def)

lemma fextends_of_extends: "extends w w' \<Longrightarrow> fextends m w w'"
  by (auto simp: extends_def fextends_def fresh_listings_def intro: quiet_fresh)

lemma fextends_trans: "fextends m w w1 \<Longrightarrow> fextends m w1 w2 \<Longrightarrow> fextends m w w2"
  by (auto simp: fextends_def fresh_listings_def intro: fresh_append)

lemma fextends_then_extends: "fextends m w w1 \<Longrightarrow> extends w1 w2 \<Longrightarrow> fextends m w w2"
  by (blast intro: fextends_trans fextends_of_extends)

lemma get_collections_out:
  "get_collections m w = (y, w1) \<Longrightarrow>
     \<exists>evs. out w1 = out w @ Call (list_url m) (next_reply (net w)) # evs \<and> quiet evs
       \<and> (y \<noteq> None \<longrightarrow> evs = []) \<and> y = collections_of (next_reply (net w))"
  by (auto simp: get_collections_def http_eq list_url_def collections_of_def
      split: reply.splits body.splits result.splits if_splits)

lemma fextends_display:
  assumes "get_collections m w = (Some cols, w1)"
  shows "fextends m w (display_collections cols w1)"
proof -
  from get_collections_out [OF assms]
  have o: "out w1 = out w @ [Call (list_url m) (next_reply (net w))]"
    and c: "collections_of (next_reply (net w)) = Some cols" by auto
  show ?thesis
    using o c by (simp add: fextends_def fresh_listings_def display_collections_def)
qed

lemma fextends_list_action: "fextends m w (snd (list_action m w))"
proof -
  let ?wp = "print_info ''Obteniendo lista de colecciones...'' [] w"
  have p: "fextends m w ?wp" by (simp add: fextends_of_extends)
  obtain y w1 where g: "get_collections m ?wp = (y, w1)" by (cases "get_collections m ?wp")
  show ?thesis
  proof (cases y)
    case None
    have "extends w w1" using extends_get_collections [OF g, of w] by simp
    then have "extends w (print_error ''No se pudieron obtener las colecciones'' [] w1)" by simp
    then show ?thesis using g None by (simp add: list_action_def fextends_of_extends)
  next
    case (Some cols)
    with g fextends_display [of m ?wp cols w1]
    have "fextends m ?wp (display_collections cols w1)" by simp
    with p have "fextends m w (display_collections cols w1)" by (rule fextends_trans)
    with g Some show ?thesis by (simp add: list_action_def)
  qed
qed

lemma fextends_details_action: "fextends m w (snd (details_action m w))"
proof -
  obtain y w1 where g: "get_collections m w = (y, w1)" by (cases "get_collections m w")
  have e1: "extends w w1" using extends_get_collections [OF g, of w] by simp
  show ?thesis
  proof (cases y)
    case None
    from e1 have "extends w (print_error ''No se pudieron obtener las colecciones'' [] w1)"
      by simp
    then show ?thesis using g None by (simp add: details_action_def fextends_of_extends)
  next
    case (Some cols)
    show ?thesis
    proof (cases "cols = []")
      case True
      from e1 have "extends w (print_warning ''No hay colecciones para mostrar detalles'' [] w1)"
        by simp
      then show ?thesis using g Some True by (simp add: details_action_def fextends_of_extends)
    next
      case False
      let ?wd = "display_collections cols w1"
      from g Some have d: "fextends m w ?wd" by (simp add: fextends_display)
      have "extends ?wd (snd (show_collection_details m cols ?wd))"
        by (simp add: extends_show_collection_details)
      with d have "fextends m w (snd (show_collection_details m cols ?wd))"
        by (rule fextends_then_extends)
      then show ?thesis using g Some False by (simp add: details_action_def)
    qed
  qed
qed

lemma extends_after_selection:
  assumes u: "get_user_selection cols ''borrar'' wd = (x, w2)"
  shows "extends wd
     (snd (case x of
             Inl e \<Rightarrow> (Inl e, w2)
           | Inr None \<Rightarrow> (Inr (), w2)
           | Inr (Some selected) \<Rightarrow>
               if selected = [] then (Inr (), w2)
               else
                 (case confirm_deletion selected w2 of
                    (Inl e, w3) \<Rightarrow> (Inl e, w3)
                  | (Inr True, w3) \<Rightarrow>
                      (case delete_collections m selected w3 of
                         ((successful, failed), w4) \<Rightarrow>
                           (Inr (), display_results successful failed ''borrado'' w4))
                  | (Inr False, w3) \<Rightarrow>
                      (Inr (), print_info ''Borrado cancelado por el usuario'' [] w3))))"
proof -
  have e2: "extends wd w2" using extends_get_user_selection [of wd wd cols "''borrar''"] u by simp
  have e3: "extends wd w3" if "confirm_deletion sel w2 = (y, w3)" for sel y w3
    using extends_confirm_deletion [OF e2, of sel] that by simp
  have e4: "extends wd w4"
    if "confirm_deletion sel w2 = (y, w3)" "delete_collections m sel w3 = (z, w4)" for sel y w3 z w4
    using extends_delete_collections [OF e3 [OF that(1)], of m sel] that(2) by simp
  show ?thesis
    using e2
    by (auto split: sum.splits option.splits prod.splits bool.splits dest: e3 e4)
qed

lemma fextends_delete_action: "fextends m w (snd (delete_action m w))"
proof -
  obtain y w1 where g: "get_collections m w = (y, w1)" by (cases "get_collections m w")
  have e1: "extends w w1" using extends_get_collections [OF g, of w] by simp
  show ?thesis
  proof (cases y)
    case None
    from e1 have "extends w (print_error ''No se pudieron obtener las colecciones'' [] w1)"
      by simp
    then show ?thesis using g None by (simp add: delete_action_def fextends_of_extends)
  next
    case (Some cols)
    show ?thesis
    proof (cases "cols = []")
      case True
      from e1 have "extends w (print_warning ''No hay colecciones para eliminar'' [] w1)"
        by simp
      then show ?thesis using g Some True by (simp add: delete_action_def fextends_of_extends)
    next
      case False
      let ?wd = "display_collections cols w1"
      from g Some have d: "fextends m w ?wd" by (simp add: fextends_display)
      obtain x w2 where u: "get_user_selection cols ''borrar'' ?wd = (x, w2)"
        by (cases "get_user_selection cols ''borrar'' ?wd")
      from fextends_then_extends [OF d extends_after_selection [OF u, of m]]
      show ?thesis using g Some False u by (simp add: delete_action_def)
    qed
  qed
qed

lemma fextends_menu_action: "fextends m w (snd (menu_action m choice w))"
  by (simp add: menu_action_def fextends_list_action fextends_details_action
      fextends_delete_action fextends_of_extends extends_create_action)

lemma fextends_run_loop: "fextends m w0 w \<Longrightarrow> fextends m w0 (snd (run_loop m w))"
proof (induction "length (stdin w)" arbitrary: w rule: less_induct)
  case less
  obtain x w1 where s: "show_main_menu w = (x, w1)" by (cases "show_main_menu w")
  have f1: "fextends m w0 w1"
    using fextends_then_extends [OF less.prems extends_show_main_menu [OF extends_refl, of w]] s
    by simp
  have l1: "length (stdin w1) \<le> length (stdin w)" using stdin_show_main_menu [of w] s by simp
  show ?case
  proof (cases x)
    case (Inl e)
    with s f1 show ?thesis by (simp add: run_loop.simps [of m w])
  next
    case (Inr choice)
    obtain y w2 where a: "menu_action m choice w1 = (y, w2)"
      by (cases "menu_action m choice w1")
    have f2: "fextends m w0 w2"
      using fextends_trans [OF f1 fextends_menu_action [of m w1 choice]] a by simp
    have l2: "length (stdin w2) \<le> length (stdin w1)"
      using stdin_menu_action [of m choice w1] a by simp
    obtain z w3 where i: "input w2 = (z, w3)" by (cases "input w2")
    have f3: "fextends m w0 w3"
      using fextends_then_extends [OF f2 extends_input [OF i extends_refl]] .
    have rec: "fextends m w0 (snd (run_loop m w3))" if "z = Inr l" for l
    proof -
      from i that have "length (stdin w3) < length (stdin w2)" by (simp add: input_lt)
      with l1 l2 have "length (stdin w3) < length (stdin w)" by simp
      from less.hyps [OF this f3] show ?thesis .
    qed
    show ?thesis
      using f1 f2 f3 rec
      by (simp add: run_loop.simps [of m w] s Inr a i split: sum.splits)
  qed
qed

lemma extends_test_connection:
  "extends w0 w \<Longrightarrow> extends w0 (snd (test_connection m w))"
proof -
  assume a: "extends w0 w"
  let ?wp = "print_info ''Probando conexion a'' [Str (base_url m)] w"
  obtain r w1 where h: "http (GET (base_url m @ ''/'')) ?wp = (r, w1)"
    by (cases "http (GET (base_url m @ ''/'')) ?wp")
  have "extends w0 w1" using extends_http [OF h] a by simp
  with h show ?thesis
    by (simp add: test_connection_def split: reply.splits net_error.splits)
qed

lemma fextends_run: "fextends m w (snd (run m w))"
proof -
  let ?wb = "print_banner m w"
  have b: "extends w ?wb" by (simp add: print_banner_def)
  obtain c w1 where t: "test_connection m ?wb = (c, w1)" by (cases "test_connection m ?wb")
  have e1: "extends w w1" using extends_test_connection [OF b, of m] t by simp
  obtain r w2 where l: "run_loop m w1 = (r, w2)" by (cases "run_loop m w1")
  have f2: "fextends m w w2"
    using fextends_run_loop [OF fextends_of_extends [OF e1], of m] l by simp
  have f3: "fextends m w (farewell w')" if "fextends m w w'" for w'
    using fextends_then_extends [OF that, of "farewell w'"]
    by (simp add: farewell_def extends_print(1) [OF extends_refl])
  have f4: "fextends m w (print lv t a w')" if "fextends m w w'" for w' lv t a
    using fextends_then_extends [OF that, of "print lv t a w'"]
    by (simp add: extends_print(1) [OF extends_refl])
  have f5: "fextends m w (print_error t a w')" if "fextends m w w'" for w' t a
    using f4 [OF that] by (simp add: print_error_def)
  show ?thesis
  proof (cases c)
    case False
    with t e1 show ?thesis by (simp add: run_def fextends_of_extends)
  next
    case True
    show ?thesis
    proof (cases r)
      case (Inr u)
      with t l True f3 [OF f2] show ?thesis by (simp add: run_def)
    next
      case (Inl e)
      with t l True f2 show ?thesis
        by (cases e) (simp_all add: run_def is_Exception_def f3 f4 f5)
    qed
  qed
qed

definition grows :: "world \<Rightarrow> world \<Rightarrow> bool" where
  "grows w w' = (\<exists>evs. out w' = out w @ evs)"

lemma grows_trans: "grows w w1 \<Longrightarrow> grows w1 w2 \<Longrightarrow> grows w w2"
  by (auto simp: grows_def)

lemma grows_of_extends: "extends w w' \<Longrightarrow> grows w w'"
  by (auto simp: grows_def extends_def)

lemma grows_display: "grows w (display_collections cols w)"
  by (simp add: grows_def display_collections_def)

lemma first_call_is_listing:
  assumes g: "get_collections m w1 = (y, w2)"
    and f: "grows w2 w3"
    and o: "calls (out w1) = calls (out w)" "net w1 = net w"
  shows "\<exists>rest. calls (out w3) = calls (out w) @ (list_url m, next_reply (net w)) # rest"
proof -
  from get_collections_out [OF g] obtain evs where
    "out w2 = out w1 @ Call (list_url m) (next_reply (net w1)) # evs" by blast
  moreover from f obtain rest where "out w3 = out w2 @ rest" by (auto simp: grows_def)
  ultimately show ?thesis using o by simp
qed

text \<open>
  Claim C8. The manager record is fixed by the constructor and is only read afterwards;
  the menu loop passes on the world alone, which holds the console, the remote service
  and the trace, and no list of collections. What the code does with listings is stated
  on the trace. In every run, each table of collections that is displayed comes right
  after a request for the listing and shows exactly what that request returned. The
  list, detail and delete actions each begin their requests with a request for the
  listing, and the name loop of the create flow makes such a request for every name that
  is not blank.
\<close>

theorem listings_are_refetched:
  "(fresh_listings m (out w) \<longrightarrow> fresh_listings m (out (snd (run m w))))
   \<and> (\<exists>rest. calls (out (snd (list_action m w)))
         = calls (out w) @ (list_url m, next_reply (net w)) # rest)
   \<and> (\<exists>rest. calls (out (snd (details_action m w)))
         = calls (out w) @ (list_url m, next_reply (net w)) # rest)
   \<and> (\<exists>rest. calls (out (snd (delete_action m w)))
         = calls (out w) @ (list_url m, next_reply (net w)) # rest)
   \<and> (\<forall>l w1. input w = (Inr l, w1) \<and> strip l \<noteq> [] \<longrightarrow>
         (\<exists>rest. calls (out (snd (ask_name m w)))
            = calls (out w) @ (list_url m, next_reply (net w)) # rest))"
proof (intro conjI allI impI)
  assume "fresh_listings m (out w)"
  with fextends_run [of m w] show "fresh_listings m (out (snd (run m w)))"
    by (auto simp: fextends_def fresh_listings_def intro: fresh_append)
next
  let ?wp = "print_info ''Obteniendo lista de colecciones...'' [] w"
  obtain y w1 where g: "get_collections m ?wp = (y, w1)" by (cases "get_collections m ?wp")
  have "grows w1 (snd (list_action m w))"
    using g
    by (cases y)
      (simp_all add: list_action_def grows_display grows_of_extends
        extends_print(2) [OF extends_refl])
  from first_call_is_listing [OF g this, of w]
  show "\<exists>rest. calls (out (snd (list_action m w)))
         = calls (out w) @ (list_url m, next_reply (net w)) # rest" by simp
next
  obtain y w1 where g: "get_collections m w = (y, w1)" by (cases "get_collections m w")
  have "grows w1 (snd (details_action m w))"
  proof (cases y)
    case None
    with g show ?thesis
      by (simp add: details_action_def grows_of_extends extends_print(2) [OF extends_refl])
  next
    case (Some cols)
    show ?thesis
    proof (cases "cols = []")
      case True
      with g Some show ?thesis
        by (simp add: details_action_def grows_of_extends extends_print(3) [OF extends_refl])
    next
      case False
      have "extends (display_collections cols w1)
              (snd (show_collection_details m cols (display_collections cols w1)))"
        by (simp add: extends_show_collection_details)
      from grows_trans [OF grows_display grows_of_extends [OF this]]
      show ?thesis using g Some False by (simp add: details_action_def)
    qed
  qed
  from first_call_is_listing [OF g this, of w]
  show "\<exists>rest. calls (out (snd (details_action m w)))
         = calls (out w) @ (list_url m, next_reply (net w)) # rest" by simp
next
  obtain y w1 where g: "get_collections m w = (y, w1)" by (cases "get_collections m w")
  have "grows w1 (snd (delete_action m w))"
  proof (cases y)
    case None
    with g show ?thesis
      by (simp add: delete_action_def grows_of_extends extends_print(2) [OF extends_refl])
  next
    case (Some cols)
    show ?thesis
    proof (cases "cols = []")
      case True
      with g Some show ?thesis
        by (simp add: delete_action_def grows_of_extends extends_print(3) [OF extends_refl])
    next
      case False
      let ?wd = "display_collections cols w1"
      obtain x w2 where u: "get_user_selection cols ''borrar'' ?wd = (x, w2)"
        by (cases "get_user_selection cols ''borrar'' ?wd")
      from grows_trans [OF grows_display grows_of_extends [OF extends_after_selection [OF u, of m]]]
      show ?thesis using g Some False u by (simp add: delete_action_def)
    qed
  qed
  from first_call_is_listing [OF g this, of w]
  show "\<exists>rest. calls (out (snd (delete_action m w)))
         = calls (out w) @ (list_url m, next_reply (net w)) # rest" by simp
next
  fix l w1
  assume a: "input w = (Inr l, w1) \<and> strip l \<noteq> []"
  then have i: "input w = (Inr l, w1)" and ne: "strip l \<noteq> []" by simp_all
  obtain y w2 where g: "get_collections m w1 = (y, w2)" by (cases "get_collections m w1")
  have "extends w2 (snd (ask_name m w))"
    using extends_ask_name [of w2 "print_error ''La coleccion ya existe'' [Str (strip l)] w2" m]
    by (simp add: ask_name.simps [of m w] i ne g split: option.splits)
  then have f: "grows w2 (snd (ask_name m w))" by (rule grows_of_extends)
  from first_call_is_listing [OF g f, of w] out_input [OF i]
  show "\<exists>rest. calls (out (snd (ask_name m w)))
            = calls (out w) @ (list_url m, next_reply (net w)) # rest" by simp
qed

lemma stale_table_not_fresh:
  "\<not> fresh_listings m (Call (list_url m) r # Print lv t a # [Table cols])"
  "collections_of r \<noteq> Some cols \<Longrightarrow> \<not> fresh_listings m (Call (list_url m) r # [Table cols])"
  by (simp_all add: fresh_listings_def)

theorem listings_are_refetched_witness:
  "fresh_listings example_manager
     (out (snd (run example_manager
        \<lparr>stdin = [Line ''1'', Line [], Line ''3'', Line [], Line ''5''],
         net = [root_reply, listing_reply, listing_reply], out = []\<rparr>)))
   \<and> (\<exists>rest. calls (out (snd (ask_name example_manager
                  \<lparr>stdin = [Line ''b''], net = [listing_reply], out = []\<rparr>)))
         = (list_url example_manager, listing_reply) # rest)"
proof -
  let ?wa = "\<lparr>stdin = [Line ''1'', Line [], Line ''3'', Line [], Line ''5''],
              net = [root_reply, listing_reply, listing_reply], out = []\<rparr>"
  let ?wb = "\<lparr>stdin = [Line ''b''], net = [listing_reply], out = []\<rparr>"
  have f: "fresh_listings example_manager (out ?wa)" by (simp add: fresh_listings_def)
  have i: "input ?wb = (Inr ''b'', \<lparr>stdin = [], net = [listing_reply], out = []\<rparr>)"
    by (simp add: input_def)
  have s: "strip ''b'' \<noteq> []" by (simp add: strip_def py_isspace_def)
  from listings_are_refetched [of example_manager ?wa, THEN conjunct1] f
  have a: "fresh_listings example_manager (out (snd (run example_manager ?wa)))" by blast
  from listings_are_refetched [of example_manager ?wb, THEN conjunct2, THEN conjunct2,
      THEN conjunct2, THEN conjunct2, rule_format, of "''b''"] i s
  have b: "\<exists>rest. calls (out (snd (ask_name example_manager ?wb)))
         = calls (out ?wb) @ (list_url example_manager, next_reply (net ?wb)) # rest" by blast
  from a b show ?thesis by (simp add: next_reply_def)
qed

lemma two_listings_in_one_run:
  "out (snd (run example_manager
        \<lparr>stdin = [Line ''1'', Line [], Line ''3'', Line [], Line ''5''],
         net = [root_reply, listing_reply, Http 200 (Json ''ok'' (Collections []))], out = []\<rparr>))
   = [Print Plain ''QDRANT COLLECTION MANAGER - ENHANCED'' [],
      Print Plain ''Configuracion''
        [Str ''qdrant'', Str ''6333'', Str ''No configurado'', Str ''No configurada''],
      Print Information ''Probando conexion a'' [Str ''http://qdrant:6333''],
      Call (GET ''http://qdrant:6333/'') root_reply,
      Print Success ''Conexion exitosa a Qdrant'' [],
      Print Plain ''MENU PRINCIPAL'' [],
      Print Information ''Obteniendo lista de colecciones...'' [],
      Call (list_url example_manager) listing_reply,
      Table example_listing,
      Print Plain ''Total'' [Num 3],
      Print Plain ''MENU PRINCIPAL'' [],
      Call (list_url example_manager) (Http 200 (Json ''ok'' (Collections []))),
      Print Warning ''No hay colecciones para mostrar detalles'' [],
      Print Plain ''MENU PRINCIPAL'' [],
      Print Plain ''Gracias por usar Qdrant Collection Manager Enhanced!'' []]"
  by code_simp


end
